theory Spec2Isabelle
  imports Main "HOL-Library.Sublist" "HOL-Library.AList"
begin

section \<open>Python values\<close>

text \<open>
  The two scripts \<^verbatim>\<open>mcvm_weld.py\<close> (variant 1) and \<^verbatim>\<open>nitro_weld.py\<close> (variant 2) work on
  values decoded from JSON, on paths, on the file system and on standard output.
  A decoded JSON value is a \<open>json\<close>; a Python dict is the association list of \<open>JObj\<close>
  (keys distinct, in insertion order), \<open>None\<close> is \<open>JNull\<close>.  JSON numbers are integers
  here: the scripts only ever test a number for truth.
\<close>

datatype json =
    JNull
  | JBool bool
  | JInt int
  | JStr string
  | JArr "json list"
  | JObj "(string \<times> json) list"

type_synonym path = "string list"

datatype exn =
    IndexError
  | KeyError string
  | TypeError
  | AttributeError
  | StopIteration
  | JSONDecodeError
  | FileNotFoundError path
  | FileExistsError path
  | NotADirectoryError path
  | IsADirectoryError path
  | OSError path
  | WeldError string

text \<open>Truth value of a decoded value, as \<^verbatim>\<open>if x:\<close> tests it.\<close>

fun py_truthy :: "json \<Rightarrow> bool" where
  "py_truthy JNull = False"
| "py_truthy (JBool b) = b"
| "py_truthy (JInt i) = (i \<noteq> 0)"
| "py_truthy (JStr s) = (s \<noteq> [])"
| "py_truthy (JArr xs) = (xs \<noteq> [])"
| "py_truthy (JObj kvs) = (kvs \<noteq> [])"

text \<open>\<^verbatim>\<open>obj[key]\<close> with a string key: only a dict accepts it.\<close>

fun py_getitem :: "json \<Rightarrow> string \<Rightarrow> exn + json" where
  "py_getitem (JObj kvs) k = (case map_of kvs k of None \<Rightarrow> Inl (KeyError k) | Some v \<Rightarrow> Inr v)"
| "py_getitem other k = Inl TypeError"

text \<open>\<^verbatim>\<open>key in obj\<close> with a string key: key of a dict, element of a list, substring of a string.\<close>

fun py_contains :: "string \<Rightarrow> json \<Rightarrow> exn + bool" where
  "py_contains k (JObj kvs) = Inr (k \<in> set (map fst kvs))"
| "py_contains k (JArr xs) = Inr (JStr k \<in> set xs)"
| "py_contains k (JStr s) = Inr (sublist k s)"
| "py_contains k other = Inl TypeError"

text \<open>\<^verbatim>\<open>ignored in entry\<close> where \<open>entry\<close> is a string: the left operand must be a string.\<close>

fun py_in_str :: "json \<Rightarrow> string \<Rightarrow> exn + bool" where
  "py_in_str (JStr p) entry = Inr (sublist p entry)"
| "py_in_str other entry = Inl TypeError"

text \<open>The elements a \<^verbatim>\<open>for\<close> loop draws from a value.\<close>

fun py_iter :: "json \<Rightarrow> exn + json list" where
  "py_iter (JArr xs) = Inr xs"
| "py_iter (JStr s) = Inr (map (\<lambda>c. JStr [c]) s)"
| "py_iter (JObj kvs) = Inr (map (\<lambda>kv. JStr (fst kv)) kvs)"
| "py_iter other = Inl TypeError"

text \<open>\<^verbatim>\<open>x == "text"\<close>.\<close>

fun py_eq_str :: "json \<Rightarrow> string \<Rightarrow> bool" where
  "py_eq_str (JStr s) t = (s = t)"
| "py_eq_str other t = False"

section \<open>\<^verbatim>\<open>json.dumps\<close>\<close>

text \<open>
  \<^verbatim>\<open>json.dumps\<close> with its defaults: separators \<^verbatim>\<open>", "\<close> and \<^verbatim>\<open>": "\<close>, and
  \<^verbatim>\<open>ensure_ascii\<close>, which escapes the quote, the backslash and every character outside
  the printable ASCII range.  A \<open>char\<close> is taken as a code point below 256.
\<close>

definition dquote :: char where
  "dquote = CHR 0x22"

definition backslash :: char where
  "backslash = CHR 0x5C"

definition hex_digit :: "nat \<Rightarrow> char" where
  "hex_digit n = (''0123456789abcdef'') ! (n mod 16)"

definition escape_char :: "char \<Rightarrow> string" where
  "escape_char c =
     (if c = dquote then [backslash, dquote]
      else if c = backslash then [backslash, backslash]
      else if c = CHR 0x0A then [backslash, CHR ''n'']
      else if c = CHR 0x0D then [backslash, CHR ''r'']
      else if c = CHR 0x09 then [backslash, CHR ''t'']
      else if c = CHR 0x08 then [backslash, CHR ''b'']
      else if c = CHR 0x0C then [backslash, CHR ''f'']
      else if of_char c < (32::nat) \<or> (126::nat) < of_char c
        then [backslash, CHR ''u'', CHR ''0'', CHR ''0'',
              hex_digit (of_char c div 16), hex_digit (of_char c)]
      else [c])"

definition dumps_str :: "string \<Rightarrow> string" where
  "dumps_str s = [dquote] @ concat (map escape_char s) @ [dquote]"

fun join_with :: "string \<Rightarrow> string list \<Rightarrow> string" where
  "join_with sep [] = []"
| "join_with sep [x] = x"
| "join_with sep (x # y # ys) = x @ sep @ join_with sep (y # ys)"

fun digits :: "nat \<Rightarrow> string" where
  "digits n = (if n < 10 then [hex_digit n] else digits (n div 10) @ [hex_digit (n mod 10)])"

declare digits.simps [simp del]

definition dumps_int :: "int \<Rightarrow> string" where
  "dumps_int i = (if i < 0 then ''-'' @ digits (nat (- i)) else digits (nat i))"

fun dumps :: "json \<Rightarrow> string" where
  "dumps JNull = ''null''"
| "dumps (JBool b) = (if b then ''true'' else ''false'')"
| "dumps (JInt i) = dumps_int i"
| "dumps (JStr s) = dumps_str s"
| "dumps (JArr xs) = ''['' @ join_with '', '' (map dumps xs) @ '']''"
| "dumps (JObj kvs) =
     ''{'' @ join_with '', '' (map (\<lambda>kv. dumps_str (fst kv) @ '': '' @ dumps (snd kv)) kvs) @ ''}''"

section \<open>Paths\<close>

text \<open>
  A \<^verbatim>\<open>pathlib.Path\<close> is the list of its components; the root, and the directory a
  relative path starts from, is the empty list.  \<open>path_parts\<close> splits a string at the
  slashes and drops empty and \<^verbatim>\<open>.\<close> components, as the constructor does;
  \<open>joinpath\<close> with an absolute argument replaces the path.  A name that comes from a
  directory listing is one component, so \<^verbatim>\<open>dir.joinpath(entry)\<close> is \<open>dir @ [entry]\<close>.
\<close>

fun split_slash :: "string \<Rightarrow> string \<Rightarrow> string list" where
  "split_slash cur [] = [cur]"
| "split_slash cur (c # cs) =
     (if c = CHR ''/'' then cur # split_slash [] cs else split_slash (cur @ [c]) cs)"

definition path_parts :: "string \<Rightarrow> path" where
  "path_parts s = filter (\<lambda>c. c \<noteq> [] \<and> c \<noteq> ''.'') (split_slash [] s)"

definition joinpath :: "path \<Rightarrow> string \<Rightarrow> path" where
  "joinpath p s = (if prefix ''/'' s then path_parts s else p @ path_parts s)"

text \<open>\<^verbatim>\<open>Path(x)\<close> and \<^verbatim>\<open>p.joinpath(x)\<close> for a decoded value \<open>x\<close>: only a string is accepted.\<close>

fun Path :: "json \<Rightarrow> exn + path" where
  "Path (JStr s) = Inr (path_parts s)"
| "Path other = Inl TypeError"

fun joinpath_value :: "path \<Rightarrow> json \<Rightarrow> exn + path" where
  "joinpath_value p (JStr s) = Inr (joinpath p s)"
| "joinpath_value p other = Inl TypeError"

section \<open>The file system\<close>

text \<open>
  The file system is the tree below the root: a regular file with its contents, or a
  directory with its entries by name.  There are no symbolic links.
\<close>

datatype node = File string | Dir "(string \<times> node) list"

fun lookup :: "node \<Rightarrow> path \<Rightarrow> node option" where
  "lookup n [] = Some n"
| "lookup (File c) (x # xs) = None"
| "lookup (Dir kids) (x # xs) = (case map_of kids x of None \<Rightarrow> None | Some k \<Rightarrow> lookup k xs)"

text \<open>\<^verbatim>\<open>Path.exists\<close>, \<^verbatim>\<open>Path.is_file\<close>, and whether a path is a directory.\<close>

definition path_exists :: "node \<Rightarrow> path \<Rightarrow> bool" where
  "path_exists t p = (lookup t p \<noteq> None)"

definition is_file :: "node \<Rightarrow> path \<Rightarrow> bool" where
  "is_file t p = (case lookup t p of Some (File c) \<Rightarrow> True | _ \<Rightarrow> False)"

definition is_dir :: "node \<Rightarrow> path \<Rightarrow> bool" where
  "is_dir t p = (case lookup t p of Some (Dir kids) \<Rightarrow> True | _ \<Rightarrow> False)"

text \<open>
  \<open>alter p v t\<close> sets the entry at \<open>p\<close> to \<open>v\<close> (\<open>None\<close> removes it) when the parent of
  \<open>p\<close> is a directory, and leaves the tree alone otherwise.
\<close>

fun alter :: "path \<Rightarrow> node option \<Rightarrow> node \<Rightarrow> node" where
  "alter [] v t = t"
| "alter (x # xs) v (File c) = File c"
| "alter [x] v (Dir kids) =
     Dir (case v of None \<Rightarrow> AList.delete x kids | Some n \<Rightarrow> AList.update x n kids)"
| "alter (x # y # ys) v (Dir kids) =
     (case map_of kids x of
        None \<Rightarrow> Dir kids
      | Some k \<Rightarrow> Dir (AList.update x (alter (y # ys) v k) kids))"

text \<open>\<^verbatim>\<open>os.listdir\<close>: the names in a directory (the order is the tree's).\<close>

definition os_listdir :: "path \<Rightarrow> node \<Rightarrow> exn + string list" where
  "os_listdir d t =
     (case lookup t d of
        None \<Rightarrow> Inl (FileNotFoundError d)
      | Some (File c) \<Rightarrow> Inl (NotADirectoryError d)
      | Some (Dir kids) \<Rightarrow> Inr (remdups (map fst kids)))"

text \<open>\<^verbatim>\<open>next(os.walk(d))[1]\<close>: the names of the immediate subdirectories of \<open>d\<close>.
  \<^verbatim>\<open>os.walk\<close> yields nothing for a path it cannot list, and \<^verbatim>\<open>next\<close> then raises.\<close>

definition walk_dirnames :: "path \<Rightarrow> node \<Rightarrow> exn + string list" where
  "walk_dirnames d t =
     (case lookup t d of
        Some (Dir kids) \<Rightarrow> Inr (filter (\<lambda>e. is_dir t (d @ [e])) (remdups (map fst kids)))
      | _ \<Rightarrow> Inl StopIteration)"

text \<open>\<^verbatim>\<open>os.mkdir\<close>.\<close>

definition os_mkdir :: "path \<Rightarrow> node \<Rightarrow> exn + node" where
  "os_mkdir p t =
     (if path_exists t p then Inl (FileExistsError p)
      else case lookup t (butlast p) of
             None \<Rightarrow> Inl (FileNotFoundError p)
           | Some (File c) \<Rightarrow> Inl (NotADirectoryError p)
           | Some (Dir kids) \<Rightarrow> Inr (alter p (Some (Dir [])) t))"

text \<open>\<^verbatim>\<open>os.remove\<close>: removes a file, refuses a directory.\<close>

definition os_remove :: "path \<Rightarrow> node \<Rightarrow> exn + node" where
  "os_remove p t =
     (case lookup t p of
        None \<Rightarrow> Inl (FileNotFoundError p)
      | Some (Dir kids) \<Rightarrow> Inl (IsADirectoryError p)
      | Some (File c) \<Rightarrow> Inr (alter p None t))"

text \<open>
  \<^verbatim>\<open>os.rename\<close> (POSIX): the source must exist, the parent of the target must be a
  directory, and a directory cannot be moved below itself.  A file replaces an existing
  file, a directory an existing empty directory; the node moves with everything below it.
\<close>

definition os_rename :: "path \<Rightarrow> path \<Rightarrow> node \<Rightarrow> exn + node" where
  "os_rename src dst t =
     (case lookup t src of
        None \<Rightarrow> Inl (FileNotFoundError src)
      | Some n \<Rightarrow>
          if src = dst then Inr t
          else if prefix src dst then Inl (OSError src)
          else (case lookup t (butlast dst) of
                  None \<Rightarrow> Inl (FileNotFoundError dst)
                | Some (File c) \<Rightarrow> Inl (NotADirectoryError dst)
                | Some (Dir kids) \<Rightarrow>
                    (case (n, lookup t dst) of
                       (_, None) \<Rightarrow> Inr (alter dst (Some n) (alter src None t))
                     | (File c, Some (File c')) \<Rightarrow> Inr (alter dst (Some n) (alter src None t))
                     | (File c, Some (Dir ks)) \<Rightarrow> Inl (IsADirectoryError dst)
                     | (Dir ks, Some (File c')) \<Rightarrow> Inl (NotADirectoryError dst)
                     | (Dir ks, Some (Dir ks')) \<Rightarrow>
                         if ks' = [] then Inr (alter dst (Some n) (alter src None t))
                         else Inl (OSError dst))))"

section \<open>The world the scripts act on\<close>

text \<open>
  \<open>files\<close> is the file system, \<open>stdout\<close> the lines printed so far, \<open>welds\<close> the calls
  made to the merge engine \<^verbatim>\<open>smithed.weld.run_weld\<close> so far.  The engine is a library
  outside the repository: it is a parameter \<open>engine\<close> that, from the call and the file
  system, fails or gives the two packs of the context, and \<^verbatim>\<open>ctx.data.save\<close> /
  \<^verbatim>\<open>ctx.assets.save\<close> with \<^verbatim>\<open>overwrite=True\<close> writes the archive file.
\<close>

record weld_call =
  packs :: "path list"
  config_output :: path
  directory :: path

record weld_ctx =
  data :: string
  assets :: string

record world =
  files :: node
  stdout :: "string list"
  welds :: "weld_call list"

datatype outcome = Normal world | Raised exn world

definition fs_step :: "(node \<Rightarrow> exn + node) \<Rightarrow> world \<Rightarrow> outcome" where
  "fs_step f w = (case f (files w) of Inl e \<Rightarrow> Raised e w | Inr t \<Rightarrow> Normal (w\<lparr>files := t\<rparr>))"

definition print :: "string \<Rightarrow> world \<Rightarrow> world" where
  "print line w = w\<lparr>stdout := stdout w @ [line]\<rparr>"

definition pack_save :: "path \<Rightarrow> string \<Rightarrow> node \<Rightarrow> exn + node" where
  "pack_save p c t =
     (case lookup t (butlast p) of
        Some (Dir kids) \<Rightarrow> Inr (alter p (Some (File c)) t)
      | _ \<Rightarrow> Inl (FileNotFoundError p))"

section \<open>The emitter \<^verbatim>\<open>output\<close>\<close>

text \<open>
  Variant 1: \<^verbatim>\<open>output(method, data=None)\<close>.  Without data the method is printed between
  two quote characters as it is; with data the one-key dict is dumped.
\<close>

definition mcvm_output :: "string \<Rightarrow> json \<Rightarrow> world \<Rightarrow> world" where
  "mcvm_output method dat w =
     (if dat = JNull then print (''%_'' @ [dquote] @ method @ [dquote]) w
      else print (''%_'' @ dumps (JObj [(method, dat)])) w)"

text \<open>Variant 2 adds the marker \<^verbatim>\<open>"__null__"\<close>, stored as \<^verbatim>\<open>None\<close> in the dict.\<close>

definition nitro_output :: "string \<Rightarrow> json \<Rightarrow> world \<Rightarrow> world" where
  "nitro_output method dat w =
     (if dat = JNull then print (''%_'' @ [dquote] @ method @ [dquote]) w
      else print (''%_'' @ dumps (JObj [(method, if dat = JStr ''__null__'' then JNull else dat)])) w)"

definition override_struct :: json where
  "override_struct =
     JObj [(''main_class_override'', JNull), (''jar_path_override'', JNull),
           (''classpath_extension'', JArr [])]"

definition start_message :: json where
  "start_message =
     JObj [(''contents'', JObj [(''StartProcess'', JStr ''Welding packs'')]),
           (''level'', JStr ''important'')]"

definition success_message :: json where
  "success_message =
     JObj [(''contents'', JObj [(''Success'', JStr ''Packs welded'')]),
           (''level'', JStr ''important'')]"

definition error_message :: "string \<Rightarrow> json" where
  "error_message text =
     JObj [(''contents'', JObj [(''Error'', JStr (''Failed to weld packs:'' @ [CHR 0x0A] @ text))]),
           (''level'', JStr ''important'')]"

text \<open>Variant 2: \<^verbatim>\<open>set_result(hook)\<close>.\<close>

definition set_result :: "string \<Rightarrow> world \<Rightarrow> world" where
  "set_result hook w =
     (if hook = ''on_instance_setup'' then nitro_output ''set_result'' override_struct w
      else nitro_output ''set_result'' (JStr ''__null__'') w)"

section \<open>The stager \<^verbatim>\<open>weld_dir\<close>\<close>

text \<open>
  The inner loop \<^verbatim>\<open>for ignored in ignore: if ignored in entry: continue\<close> of the first
  pass.  Its \<^verbatim>\<open>continue\<close> goes on with the next pattern, so the loop only evaluates the
  tests (which raise for a pattern that is not a string) and then falls through.
\<close>

fun ignore_loop :: "json list \<Rightarrow> string \<Rightarrow> exn + unit" where
  "ignore_loop [] entry = Inr ()"
| "ignore_loop (ignored # rest) entry =
     (case py_in_str ignored entry of
        Inl e \<Rightarrow> Inl e
      | Inr b \<Rightarrow> if b then ignore_loop rest entry else ignore_loop rest entry)"

text \<open>The move \<^verbatim>\<open>if target.exists(): os.remove(target)\<close> then \<^verbatim>\<open>os.rename(source, target)\<close>.\<close>

definition move_over :: "path \<Rightarrow> path \<Rightarrow> world \<Rightarrow> outcome" where
  "move_over source target w =
     (case (if path_exists (files w) target then fs_step (os_remove target) w else Normal w) of
        Raised e w1 \<Rightarrow> Raised e w1
      | Normal w1 \<Rightarrow> fs_step (os_rename source target) w1)"

text \<open>One round of the first pass, for one entry of the listing; \<open>marker\<close> is
  \<^verbatim>\<open>"weld_pack"\<close> in variant 1 and \<^verbatim>\<open>"Welded Packs"\<close> in variant 2.\<close>

definition stage_entry :: "string \<Rightarrow> path \<Rightarrow> json \<Rightarrow> string \<Rightarrow> world \<Rightarrow> outcome" where
  "stage_entry marker dir ignore entry w =
     (if sublist marker entry then Normal w
      else case py_iter ignore of
             Inl e \<Rightarrow> Raised e w
           | Inr pats \<Rightarrow>
               (case ignore_loop pats entry of
                  Inl e \<Rightarrow> Raised e w
                | Inr u \<Rightarrow>
                    if is_file (files w) (dir @ [entry])
                    then move_over (dir @ [entry]) (dir @ [''unwelded'', entry]) w
                    else Normal w))"

fun stage_loop :: "string \<Rightarrow> path \<Rightarrow> json \<Rightarrow> string list \<Rightarrow> world \<Rightarrow> outcome" where
  "stage_loop marker dir ignore [] w = Normal w"
| "stage_loop marker dir ignore (entry # rest) w =
     (case stage_entry marker dir ignore entry w of
        Raised e w1 \<Rightarrow> Raised e w1
      | Normal w1 \<Rightarrow> stage_loop marker dir ignore rest w1)"

text \<open>The second pass of variant 2: for one staged entry, the loop over the patterns,
  which moves the entry back at every pattern it contains.\<close>

fun restore_entry :: "path \<Rightarrow> string \<Rightarrow> json list \<Rightarrow> world \<Rightarrow> outcome" where
  "restore_entry dir entry [] w = Normal w"
| "restore_entry dir entry (ignored # rest) w =
     (case py_in_str ignored entry of
        Inl e \<Rightarrow> Raised e w
      | Inr b \<Rightarrow>
          if b then
            (case move_over (dir @ [''unwelded'', entry]) (dir @ [entry]) w of
               Raised e w1 \<Rightarrow> Raised e w1
             | Normal w1 \<Rightarrow> restore_entry dir entry rest w1)
          else restore_entry dir entry rest w)"

fun restore_loop :: "path \<Rightarrow> json \<Rightarrow> string list \<Rightarrow> world \<Rightarrow> outcome" where
  "restore_loop dir ignore [] w = Normal w"
| "restore_loop dir ignore (entry # rest) w =
     (case py_iter ignore of
        Inl e \<Rightarrow> Raised e w
      | Inr pats \<Rightarrow>
          (case restore_entry dir entry pats w of
             Raised e w1 \<Rightarrow> Raised e w1
           | Normal w1 \<Rightarrow> restore_loop dir ignore rest w1))"

text \<open>\<^verbatim>\<open>if not unwelded_path.exists(): os.mkdir(unwelded_path)\<close>.\<close>

definition ensure_unwelded :: "path \<Rightarrow> world \<Rightarrow> outcome" where
  "ensure_unwelded unwelded_path w =
     (if \<not> path_exists (files w) unwelded_path then fs_step (os_mkdir unwelded_path) w
      else Normal w)"

type_synonym engine = "weld_call \<Rightarrow> node \<Rightarrow> exn + weld_ctx"

text \<open>Variant 1, \<^verbatim>\<open>weld_dir(dir, ignore)\<close>.  The packs handed to the engine are
  \<^verbatim>\<open>dir.joinpath(x)\<close> for the names \<open>x\<close> listed in the staging directory.\<close>

definition mcvm_weld_dir :: "engine \<Rightarrow> path \<Rightarrow> json \<Rightarrow> world \<Rightarrow> outcome" where
  "mcvm_weld_dir run_weld dir ignore w =
     (let unwelded_path = dir @ [''unwelded''] in
      case ensure_unwelded unwelded_path w of
        Raised e w1 \<Rightarrow> Raised e w1
      | Normal w1 \<Rightarrow>
     (case os_listdir dir (files w1) of
        Inl e \<Rightarrow> Raised e w1
      | Inr entries \<Rightarrow>
     (case stage_loop ''weld_pack'' dir ignore entries w1 of
        Raised e w2 \<Rightarrow> Raised e w2
      | Normal w2 \<Rightarrow>
     (case os_listdir unwelded_path (files w2) of
        Inl e \<Rightarrow> Raised e w2
      | Inr staged \<Rightarrow>
          (let call = \<lparr>packs = map (\<lambda>x. dir @ [x]) staged, config_output = dir, directory = dir\<rparr>;
               w3 = w2\<lparr>welds := welds w2 @ [call]\<rparr>
           in case run_weld call (files w2) of
                Inl e \<Rightarrow> Raised e w3
              | Inr ctx \<Rightarrow> fs_step (pack_save (dir @ [''weld_pack.zip'']) (data ctx)) w3)))))"

text \<open>Variant 2, \<^verbatim>\<open>weld_dir(dir, ignore, mode)\<close>.\<close>

definition nitro_weld_dir :: "engine \<Rightarrow> path \<Rightarrow> json \<Rightarrow> string \<Rightarrow> world \<Rightarrow> outcome" where
  "nitro_weld_dir run_weld dir ignore mode w =
     (let unwelded_path = dir @ [''unwelded''] in
      case ensure_unwelded unwelded_path w of
        Raised e w1 \<Rightarrow> Raised e w1
      | Normal w1 \<Rightarrow>
     (case os_listdir dir (files w1) of
        Inl e \<Rightarrow> Raised e w1
      | Inr entries \<Rightarrow>
     (case stage_loop ''Welded Packs'' dir ignore entries w1 of
        Raised e w2 \<Rightarrow> Raised e w2
      | Normal w2 \<Rightarrow>
     (case os_listdir unwelded_path (files w2) of
        Inl e \<Rightarrow> Raised e w2
      | Inr staged \<Rightarrow>
     (case restore_loop dir ignore staged w2 of
        Raised e w3 \<Rightarrow> Raised e w3
      | Normal w3 \<Rightarrow>
     (case os_listdir unwelded_path (files w3) of
        Inl e \<Rightarrow> Raised e w3
      | Inr remaining \<Rightarrow>
          (let call = \<lparr>packs = map (\<lambda>x. unwelded_path @ [x]) remaining,
                       config_output = dir, directory = dir\<rparr>;
               target_pack_path = dir @ [''Welded Packs.zip''];
               w4 = w3\<lparr>welds := welds w3 @ [call]\<rparr>
           in case run_weld call (files w3) of
                Inl e \<Rightarrow> Raised e w4
              | Inr ctx \<Rightarrow>
                  if mode = ''data'' then fs_step (pack_save target_pack_path (data ctx)) w4
                  else if mode = ''resource''
                    then fs_step (pack_save target_pack_path (assets ctx)) w4
                  else Normal w4)))))))"

section \<open>The dispatcher \<^verbatim>\<open>run\<close>\<close>

text \<open>\<^verbatim>\<open>sys.argv[i]\<close>.\<close>

definition argv_get :: "string list \<Rightarrow> nat \<Rightarrow> exn + string" where
  "argv_get argv i = (if i < length argv then Inr (argv ! i) else Inl IndexError)"

text \<open>\<^verbatim>\<open>"disable_weld" in arg["config"] and arg["config"]["disable_weld"]\<close>.\<close>

definition weld_disabled :: "json \<Rightarrow> exn + bool" where
  "weld_disabled arg =
     (case py_getitem arg ''config'' of
        Inl e \<Rightarrow> Inl e
      | Inr cfg \<Rightarrow>
          (case py_contains ''disable_weld'' cfg of
             Inl e \<Rightarrow> Inl e
           | Inr b \<Rightarrow>
               if b then
                 (case py_getitem cfg ''disable_weld'' of
                    Inl e \<Rightarrow> Inl e
                  | Inr v \<Rightarrow> Inr (py_truthy v))
               else Inr False))"

text \<open>\<^verbatim>\<open>weld_ignore = []\<close>, replaced by \<^verbatim>\<open>arg["config"]["weld_ignore"]\<close> when the key is there.\<close>

definition weld_ignore_of :: "json \<Rightarrow> exn + json" where
  "weld_ignore_of arg =
     (case py_getitem arg ''config'' of
        Inl e \<Rightarrow> Inl e
      | Inr cfg \<Rightarrow>
          (case py_contains ''weld_ignore'' cfg of
             Inl e \<Rightarrow> Inl e
           | Inr b \<Rightarrow> if b then py_getitem cfg ''weld_ignore'' else Inr (JArr [])))"

text \<open>
  Variant 1, the loop over the saves:
  \<^verbatim>\<open>for entry in next(os.walk(saves_dir))[1]: datapack_dirs.append(saves_dir.join(entry[0]))\<close>.
  A \<^verbatim>\<open>Path\<close> has no attribute \<^verbatim>\<open>join\<close>, so the first round raises.
\<close>

fun mcvm_saves_loop :: "path \<Rightarrow> string list \<Rightarrow> path list \<Rightarrow> exn + path list" where
  "mcvm_saves_loop saves_dir [] datapack_dirs = Inr datapack_dirs"
| "mcvm_saves_loop saves_dir (entry # rest) datapack_dirs = Inl AttributeError"

text \<open>Variant 1, the datapack directories (lines 71 to 83).\<close>

definition mcvm_datapack_dirs :: "json \<Rightarrow> path \<Rightarrow> node \<Rightarrow> exn + path list" where
  "mcvm_datapack_dirs arg game_dir t =
     (case py_getitem arg ''config'' of
        Inl e \<Rightarrow> Inl e
      | Inr cfg \<Rightarrow>
     (case py_getitem cfg ''datapack_folder'' of
        Inl e \<Rightarrow> Inl e
      | Inr datapack_folder \<Rightarrow>
          if datapack_folder \<noteq> JNull then
            (case joinpath_value game_dir datapack_folder of
               Inl e \<Rightarrow> Inl e
             | Inr p \<Rightarrow> Inr [p])
          else
            (case py_getitem arg ''side'' of
               Inl e \<Rightarrow> Inl e
             | Inr side \<Rightarrow>
                 if py_eq_str side ''client'' then
                   (case walk_dirnames (joinpath game_dir ''saves'') t of
                      Inl e \<Rightarrow> Inl e
                    | Inr entries \<Rightarrow> mcvm_saves_loop (joinpath game_dir ''saves'') entries [])
                 else Inr [joinpath game_dir ''world/datapacks''])))"

text \<open>Variant 2, the loop over the saves: a save counts when its \<^verbatim>\<open>datapacks\<close> exists.\<close>

fun nitro_saves_loop :: "path \<Rightarrow> node \<Rightarrow> string list \<Rightarrow> path list \<Rightarrow> path list" where
  "nitro_saves_loop saves_dir t [] datapack_dirs = datapack_dirs"
| "nitro_saves_loop saves_dir t (entry # rest) datapack_dirs =
     (if path_exists t (saves_dir @ [entry] @ path_parts ''datapacks'')
      then nitro_saves_loop saves_dir t rest (datapack_dirs @ [saves_dir @ [entry] @ path_parts ''datapacks''])
      else nitro_saves_loop saves_dir t rest datapack_dirs)"

text \<open>Variant 2, the datapack directories (lines 110 to 124).\<close>

definition nitro_datapack_dirs :: "json \<Rightarrow> path \<Rightarrow> node \<Rightarrow> exn + path list" where
  "nitro_datapack_dirs arg game_dir t =
     (case py_getitem arg ''config'' of
        Inl e \<Rightarrow> Inl e
      | Inr cfg \<Rightarrow>
     (case py_contains ''datapack_folder'' cfg of
        Inl e \<Rightarrow> Inl e
      | Inr b \<Rightarrow>
     (case (if b then py_getitem cfg ''datapack_folder'' else Inr JNull) of
        Inl e \<Rightarrow> Inl e
      | Inr datapack_folder \<Rightarrow>
          if datapack_folder \<noteq> JNull then
            (case joinpath_value game_dir datapack_folder of
               Inl e \<Rightarrow> Inl e
             | Inr p \<Rightarrow> Inr [p])
          else
            (case py_getitem arg ''side'' of
               Inl e \<Rightarrow> Inl e
             | Inr side \<Rightarrow>
                 if py_eq_str side ''client'' then
                   (case walk_dirnames (joinpath game_dir ''saves'') t of
                      Inl e \<Rightarrow> Inl e
                    | Inr entries \<Rightarrow>
                        Inr (nitro_saves_loop (joinpath game_dir ''saves'') t entries []))
                 else Inr [joinpath game_dir ''world/datapacks'']))))"

text \<open>\<^verbatim>\<open>for dir in dirs: weld_dir(dir, ...)\<close>.\<close>

fun weld_each :: "(path \<Rightarrow> world \<Rightarrow> outcome) \<Rightarrow> path list \<Rightarrow> world \<Rightarrow> outcome" where
  "weld_each weld [] w = Normal w"
| "weld_each weld (dir # rest) w =
     (case weld dir w of
        Raised e w1 \<Rightarrow> Raised e w1
      | Normal w1 \<Rightarrow> weld_each weld rest w1)"

text \<open>Variant 1, \<^verbatim>\<open>run()\<close>; \<open>loads\<close> is \<^verbatim>\<open>json.loads\<close>.\<close>

definition mcvm_run :: "(string \<Rightarrow> exn + json) \<Rightarrow> engine \<Rightarrow> string list \<Rightarrow> world \<Rightarrow> outcome" where
  "mcvm_run loads run_weld argv w =
     (case argv_get argv 1 of
        Inl e \<Rightarrow> Raised e w
      | Inr hook \<Rightarrow>
     if hook \<noteq> ''on_instance_setup'' then Normal w else
     (case argv_get argv 2 of
        Inl e \<Rightarrow> Raised e w
      | Inr arg_raw \<Rightarrow>
     (case loads arg_raw of
        Inl e \<Rightarrow> Raised e w
      | Inr arg \<Rightarrow>
     (case py_getitem arg ''update_depth'' of
        Inl e \<Rightarrow> Raised e w
      | Inr depth \<Rightarrow>
     if py_eq_str depth ''shallow'' then Normal w else
     (case weld_disabled arg of
        Inl e \<Rightarrow> Raised e w
      | Inr disabled \<Rightarrow>
     if disabled then Normal w else
     (let w1 = mcvm_output ''message'' start_message (mcvm_output ''start_process'' JNull w) in
      case py_getitem arg ''game_dir'' of
        Inl e \<Rightarrow> Raised e w1
      | Inr g \<Rightarrow>
     (case Path g of
        Inl e \<Rightarrow> Raised e w1
      | Inr game_dir \<Rightarrow>
     (case mcvm_datapack_dirs arg game_dir (files w1) of
        Inl e \<Rightarrow> Raised e w1
      | Inr datapack_dirs \<Rightarrow>
     (case weld_ignore_of arg of
        Inl e \<Rightarrow> Raised e w1
      | Inr weld_ignore \<Rightarrow>
     (case weld_each (\<lambda>dir. mcvm_weld_dir run_weld dir weld_ignore) datapack_dirs w1 of
        Raised e w2 \<Rightarrow> Raised e w2
      | Normal w2 \<Rightarrow>
     (case weld_each (\<lambda>dir. mcvm_weld_dir run_weld dir weld_ignore)
             [joinpath game_dir ''resourcepacks''] w2 of
        Raised e w3 \<Rightarrow> Raised e w3
      | Normal w3 \<Rightarrow>
          Normal (mcvm_output ''end_process'' JNull
                    (mcvm_output ''message'' success_message w3)))))))))))))"

text \<open>
  Variant 1, the module body run as a script: the imports, the four \<^verbatim>\<open>def\<close>s, and the
  statement \<^verbatim>\<open>output("set_result", {...})\<close>, which stands at the top level after
  \<^verbatim>\<open>def main\<close>.  Nothing calls \<^verbatim>\<open>main\<close>.
\<close>

definition mcvm_main :: "(string \<Rightarrow> exn + json) \<Rightarrow> engine \<Rightarrow> string list \<Rightarrow> world \<Rightarrow> outcome" where
  "mcvm_main loads run_weld argv w = mcvm_run loads run_weld argv w"

definition mcvm_script :: "(string \<Rightarrow> exn + json) \<Rightarrow> engine \<Rightarrow> string list \<Rightarrow> world \<Rightarrow> outcome" where
  "mcvm_script loads run_weld argv w = Normal (mcvm_output ''set_result'' override_struct w)"

text \<open>\<^verbatim>\<open>hook == "on_instance_setup" and "update_depth" in arg and arg["update_depth"] == "full"\<close>.\<close>

definition nitro_deferred :: "string \<Rightarrow> json \<Rightarrow> exn + bool" where
  "nitro_deferred hook arg =
     (if hook = ''on_instance_setup'' then
        (case py_contains ''update_depth'' arg of
           Inl e \<Rightarrow> Inl e
         | Inr b \<Rightarrow>
             if b then
               (case py_getitem arg ''update_depth'' of
                  Inl e \<Rightarrow> Inl e
                | Inr depth \<Rightarrow> Inr (py_eq_str depth ''full''))
             else Inr False)
      else Inr False)"

definition recognized :: "string \<Rightarrow> bool" where
  "recognized hook =
     (\<not> (hook \<noteq> ''after_packages_installed'' \<and> hook \<noteq> ''on_instance_setup''
         \<and> hook \<noteq> ''update_world_files''))"

text \<open>Variant 2, \<^verbatim>\<open>run()\<close>.  The branch for an unknown hook prints and sets the result,
  and has no \<^verbatim>\<open>return\<close>.\<close>

definition nitro_run :: "(string \<Rightarrow> exn + json) \<Rightarrow> engine \<Rightarrow> string list \<Rightarrow> world \<Rightarrow> outcome" where
  "nitro_run loads run_weld argv w =
     (case argv_get argv 1 of
        Inl e \<Rightarrow> Raised e w
      | Inr hook \<Rightarrow>
     (let w0 = (if \<not> recognized hook then set_result hook (print ''$_Incorrect hook'' w) else w) in
      case argv_get argv 2 of
        Inl e \<Rightarrow> Raised e w0
      | Inr arg_raw \<Rightarrow>
     (case loads arg_raw of
        Inl e \<Rightarrow> Raised e w0
      | Inr arg \<Rightarrow>
     (case nitro_deferred hook arg of
        Inl e \<Rightarrow> Raised e w0
      | Inr deferred \<Rightarrow>
     if deferred then Normal (set_result hook w0) else
     (case weld_disabled arg of
        Inl e \<Rightarrow> Raised e w0
      | Inr disabled \<Rightarrow>
     if disabled then Normal (set_result hook w0) else
     (let w1 = nitro_output ''message'' start_message (nitro_output ''start_process'' JNull w0) in
      case py_getitem arg ''game_dir'' of
        Inl e \<Rightarrow> Raised e w1
      | Inr g \<Rightarrow>
     if g = JNull then Normal (set_result hook w1) else
     (case Path g of
        Inl e \<Rightarrow> Raised e w1
      | Inr game_dir \<Rightarrow>
     (case nitro_datapack_dirs arg game_dir (files w1) of
        Inl e \<Rightarrow> Raised e w1
      | Inr datapack_dirs \<Rightarrow>
     (case weld_ignore_of arg of
        Inl e \<Rightarrow> Raised e w1
      | Inr weld_ignore \<Rightarrow>
     (case weld_each (\<lambda>dir. nitro_weld_dir run_weld dir weld_ignore ''data'') datapack_dirs w1 of
        Raised e w2 \<Rightarrow> Raised e w2
      | Normal w2 \<Rightarrow>
     (case weld_each (\<lambda>dir. nitro_weld_dir run_weld dir weld_ignore ''resource'')
             [joinpath game_dir ''resourcepacks''] w2 of
        Raised e w3 \<Rightarrow> Raised e w3
      | Normal w3 \<Rightarrow>
          Normal (set_result hook
                    (nitro_output ''end_process'' JNull
                       (nitro_output ''message'' success_message w3))))))))))))))"

text \<open>Variant 2, \<^verbatim>\<open>main()\<close>, which the module body calls when run as a script;
  \<open>exn_str\<close> is \<^verbatim>\<open>str(e)\<close>, the text the interpreter gives an exception.\<close>

definition nitro_main ::
  "(string \<Rightarrow> exn + json) \<Rightarrow> engine \<Rightarrow> (exn \<Rightarrow> string) \<Rightarrow> string list \<Rightarrow> world \<Rightarrow> world" where
  "nitro_main loads run_weld exn_str argv w =
     (case nitro_run loads run_weld argv w of
        Normal w1 \<Rightarrow> w1
      | Raised e w1 \<Rightarrow> nitro_output ''message'' (error_message (exn_str e)) w1)"

section \<open>Notions used by the statements\<close>

text \<open>The world an outcome ends in, and the exception it ends with, if any.\<close>

fun world_of :: "outcome \<Rightarrow> world" where
  "world_of (Normal w) = w"
| "world_of (Raised e w) = w"

fun raised :: "outcome \<Rightarrow> exn option" where
  "raised (Normal w) = None"
| "raised (Raised e w) = Some e"

text \<open>What a path names: a file with its contents, a directory, or nothing.\<close>

datatype kind = IsFile string | IsDir

fun kind_of :: "node \<Rightarrow> kind" where
  "kind_of (File c) = IsFile c"
| "kind_of (Dir kids) = IsDir"

definition kind_at :: "node \<Rightarrow> path \<Rightarrow> kind option" where
  "kind_at t p = map_option kind_of (lookup t p)"

text \<open>A character that \<^verbatim>\<open>json.dumps\<close> writes as it is.\<close>

definition plain_char :: "char \<Rightarrow> bool" where
  "plain_char c =
     (c \<noteq> dquote \<and> c \<noteq> backslash \<and> (32::nat) \<le> of_char c \<and> of_char c \<le> (126::nat))"

text \<open>A pattern list \<open>P\<close> as the decoded \<^verbatim>\<open>weld_ignore\<close>, and whether a name contains one
  of its patterns.\<close>

definition ignore_list :: "string list \<Rightarrow> json" where
  "ignore_list P = JArr (map JStr P)"

definition ignored :: "string list \<Rightarrow> string \<Rightarrow> bool" where
  "ignored P entry = (\<exists>p \<in> set P. sublist p entry)"

text \<open>Whether an entry contains one of the decoded patterns, as the second pass of
  variant 2 tests it.\<close>

definition hit :: "json list \<Rightarrow> string \<Rightarrow> bool" where
  "hit pats entry = (\<exists>p \<in> set pats. py_in_str p entry = Inr True)"

definition restored :: "json \<Rightarrow> string \<Rightarrow> bool" where
  "restored ignore entry = (case py_iter ignore of Inl e \<Rightarrow> False | Inr pats \<Rightarrow> hit pats entry)"



text \<open>Concrete inputs: an engine that always succeeds, a world that has printed nothing,
  a pack directory \<^verbatim>\<open>/d\<close> with the files \<^verbatim>\<open>a.zip\<close> and \<^verbatim>\<open>b.zip\<close>, the same directory with
  the files \<^verbatim>\<open>b1.zip\<close> and \<^verbatim>\<open>b2.zip\<close>, a game directory \<^verbatim>\<open>/g\<close> with two saves, and a
  hook argument.\<close>

definition example_engine :: engine where
  "example_engine call t = Inr \<lparr>data = ''D'', assets = ''A''\<rparr>"

definition fresh :: "node \<Rightarrow> world" where
  "fresh t = \<lparr>files = t, stdout = [], welds = []\<rparr>"

definition example_packs :: node where
  "example_packs = Dir [(''d'', Dir [(''a.zip'', File ''x''), (''b.zip'', File ''y'')])]"


definition example_game :: node where
  "example_game =
     Dir [(''g'', Dir [(''resourcepacks'', Dir [(''a.zip'', File ''x''), (''b.zip'', File ''y'')]),
                       (''saves'', Dir [(''A'', Dir [(''datapacks'', Dir [])]),
                                        (''B'', Dir [(''datapacks'', Dir [])])])])]"

definition example_arg :: "string \<Rightarrow> (string \<times> json) list \<Rightarrow> string \<Rightarrow> json" where
  "example_arg depth config side =
     JObj [(''update_depth'', JStr depth), (''config'', JObj config),
           (''game_dir'', JStr ''/g''), (''side'', JStr side)]"

section \<open>The emitter\<close>

lemma escape_char_plain: "plain_char c \<Longrightarrow> escape_char c = [c]"
  by (auto simp: plain_char_def escape_char_def)

lemma dumps_str_plain: "\<forall>c\<in>set s. plain_char c \<Longrightarrow> dumps_str s = [dquote] @ s @ [dquote]"
  by (induction s) (auto simp: dumps_str_def escape_char_plain)

text \<open>
  Claim C9, as the code has it.  Without a payload both emitters write one line, the
  sentinel \<^verbatim>\<open>%_\<close> and the kind between quotes, which is the JSON encoding of the kind
  when the kind needs no escaping.  With a payload they write the sentinel and the dumped
  one-key object from the kind to the payload.  In variant 2 the payload \<^verbatim>\<open>"__null__"\<close> is
  written as the JSON \<^verbatim>\<open>null\<close>, in a line that differs from the line without payload;
  variant 1 has no such marker and writes that payload as the string it is.
\<close>

theorem output_line_shapes:
  "((\<forall>c\<in>set kind. plain_char c) \<longrightarrow>
       mcvm_output kind JNull w = w\<lparr>stdout := stdout w @ [''%_'' @ dumps (JStr kind)]\<rparr>
     \<and> nitro_output kind JNull w = w\<lparr>stdout := stdout w @ [''%_'' @ dumps (JStr kind)]\<rparr>)
   \<and> (payload \<noteq> JNull \<longrightarrow>
       mcvm_output kind payload w
         = w\<lparr>stdout := stdout w @ [''%_'' @ dumps (JObj [(kind, payload)])]\<rparr>)
   \<and> (payload \<noteq> JNull \<longrightarrow> payload \<noteq> JStr ''__null__'' \<longrightarrow>
       nitro_output kind payload w
         = w\<lparr>stdout := stdout w @ [''%_'' @ dumps (JObj [(kind, payload)])]\<rparr>)
   \<and> nitro_output kind (JStr ''__null__'') w
        = w\<lparr>stdout := stdout w @ [''%_'' @ dumps (JObj [(kind, JNull)])]\<rparr>
   \<and> dumps (JObj [(kind, JNull)]) = ''{'' @ dumps (JStr kind) @ '': null}''
   \<and> stdout (nitro_output kind (JStr ''__null__'') w) \<noteq> stdout (nitro_output kind JNull w)
   \<and> mcvm_output kind (JStr ''__null__'') w
        = w\<lparr>stdout := stdout w @ [''%_'' @ dumps (JObj [(kind, JStr ''__null__'')])]\<rparr>"
  by (simp add: mcvm_output_def nitro_output_def print_def dumps_str_plain dquote_def)

text \<open>The shapes at the kinds and payloads the scripts use.\<close>

theorem output_line_shapes_witness:
  "override_struct \<noteq> JNull \<and> override_struct \<noteq> JStr ''__null__''
   \<and> stdout (nitro_output ''end_process'' JNull (fresh (Dir []))) = [''%_'' @ dumps (JStr ''end_process'')]
   \<and> stdout (mcvm_output ''end_process'' override_struct (fresh (Dir [])))
        = [''%_'' @ dumps (JObj [(''end_process'', override_struct)])]
   \<and> stdout (nitro_output ''end_process'' override_struct (fresh (Dir [])))
        = [''%_'' @ dumps (JObj [(''end_process'', override_struct)])]"
proof -
  have plain: "\<forall>c\<in>set ''end_process''. plain_char c"
    by (simp add: plain_char_def dquote_def backslash_def)
  have payload: "override_struct \<noteq> JNull" "override_struct \<noteq> JStr ''__null__''"
    by (simp_all add: override_struct_def)
  from output_line_shapes [of "''end_process''" "fresh (Dir [])" override_struct] plain payload
  show ?thesis
    by (simp add: fresh_def)
qed

text \<open>
  Claim C9 as it is stated fails in two places: variant 1 writes the payload
  \<^verbatim>\<open>"__null__"\<close> as a JSON string, not as \<^verbatim>\<open>null\<close>; and a kind that holds a quote is
  written between quotes unescaped, which is not its JSON encoding.
\<close>

theorem output_explicit_null_counterexample:
  "stdout (mcvm_output ''set_result'' (JStr ''__null__'') \<lparr>files = Dir [], stdout = [], welds = []\<rparr>)
     \<noteq> [''%_'' @ dumps (JObj [(''set_result'', JNull)])]
   \<and> stdout (nitro_output [CHR 0x22] JNull \<lparr>files = Dir [], stdout = [], welds = []\<rparr>)
     \<noteq> [''%_'' @ dumps (JStr [CHR 0x22])]"
  by (simp add: mcvm_output_def nitro_output_def print_def dumps_str_def escape_char_def
        dquote_def backslash_def)

section \<open>Variant 1 run as a script\<close>

text \<open>
  Claim C4.  Run as a script, variant 1 writes the one line
  \<^verbatim>\<open>%_{"set_result": {"main_class_override": null, "jar_path_override": null, "classpath_extension": []}}\<close>
  and does nothing else, whatever the command line, the decoder and the engine are:
  the file system and the list of engine calls stay as they were, and \<open>mcvm_run\<close> has no
  part in it.
\<close>

theorem mcvm_script_only_sets_result:
  "mcvm_script loads run_weld argv w =
     Normal (w\<lparr>stdout := stdout w @
       [''%_'' @ dumps (JObj [(''set_result'',
           JObj [(''main_class_override'', JNull), (''jar_path_override'', JNull),
                 (''classpath_extension'', JArr [])])])]\<rparr>)
   \<and> dumps (JObj [(''set_result'',
           JObj [(''main_class_override'', JNull), (''jar_path_override'', JNull),
                 (''classpath_extension'', JArr [])])])
      = ''{'' @ [dquote] @ ''set_result'' @ [dquote] @ '': {''
         @ [dquote] @ ''main_class_override'' @ [dquote] @ '': null, ''
         @ [dquote] @ ''jar_path_override'' @ [dquote] @ '': null, ''
         @ [dquote] @ ''classpath_extension'' @ [dquote] @ '': []}}''"
  by (simp add: mcvm_script_def mcvm_output_def override_struct_def print_def dumps_str_def
        escape_char_def dquote_def backslash_def)

section \<open>The defects, at concrete inputs\<close>

text \<open>
  Claim C1 at \<^verbatim>\<open>/d\<close> with the files \<^verbatim>\<open>a.zip\<close> and \<^verbatim>\<open>b.zip\<close> and the ignore list
  \<^verbatim>\<open>["b"]\<close>, in variant 1: the stager completes, and \<^verbatim>\<open>b.zip\<close>, whose name contains the
  pattern, is in the staging directory and no longer in \<^verbatim>\<open>/d\<close>.
\<close>

theorem mcvm_weld_dir_stages_ignored_file:
  "raised (mcvm_weld_dir example_engine [''d''] (ignore_list [''b'']) (fresh example_packs)) = None
   \<and> ignored [''b''] ''b.zip''
   \<and> is_file (files (world_of (mcvm_weld_dir example_engine [''d''] (ignore_list [''b''])
                                 (fresh example_packs)))) [''d'', ''unwelded'', ''b.zip'']
   \<and> \<not> path_exists (files (world_of (mcvm_weld_dir example_engine [''d''] (ignore_list [''b''])
                                       (fresh example_packs)))) [''d'', ''b.zip'']"
  by code_simp

text \<open>
  Claim C2 in variant 2 at the hook \<^verbatim>\<open>on_load\<close>, which is not one of the three hooks of
  the variant: the run prints the diagnostic line and the result, and then goes on to
  stage and merge the three directories and to print the four progress lines and the
  result once more.
\<close>

theorem nitro_run_unknown_hook_goes_on:
  "nitro_run (\<lambda>raw. Inr (example_arg ''shallow'' [] ''client'')) example_engine
      [''nitro_weld.py'', ''on_load'', ''{}''] (fresh example_game)
   = Normal \<lparr>files =
       Dir [(''g'', Dir [(''resourcepacks'',
                          Dir [(''unwelded'', Dir [(''a.zip'', File ''x''), (''b.zip'', File ''y'')]),
                               (''Welded Packs.zip'', File ''A'')]),
                       (''saves'',
                          Dir [(''A'', Dir [(''datapacks'',
                                   Dir [(''unwelded'', Dir []), (''Welded Packs.zip'', File ''D'')])]),
                               (''B'', Dir [(''datapacks'',
                                   Dir [(''unwelded'', Dir []), (''Welded Packs.zip'', File ''D'')])])])])],
     stdout =
       [''$_Incorrect hook'',
        ''%_'' @ dumps (JObj [(''set_result'', JNull)]),
        ''%_'' @ dumps (JStr ''start_process''),
        ''%_'' @ dumps (JObj [(''message'', start_message)]),
        ''%_'' @ dumps (JObj [(''message'', success_message)]),
        ''%_'' @ dumps (JStr ''end_process''),
        ''%_'' @ dumps (JObj [(''set_result'', JNull)])],
     welds =
       [\<lparr>packs = [], config_output = [''g'', ''saves'', ''A'', ''datapacks''],
          directory = [''g'', ''saves'', ''A'', ''datapacks'']\<rparr>,
        \<lparr>packs = [], config_output = [''g'', ''saves'', ''B'', ''datapacks''],
          directory = [''g'', ''saves'', ''B'', ''datapacks'']\<rparr>,
        \<lparr>packs = [[''g'', ''resourcepacks'', ''unwelded'', ''a.zip''],
                   [''g'', ''resourcepacks'', ''unwelded'', ''b.zip'']],
          config_output = [''g'', ''resourcepacks''], directory = [''g'', ''resourcepacks'']\<rparr>]\<rparr>"
  by code_simp

text \<open>
  Claim C3 in variant 1 at \<^verbatim>\<open>/d\<close> with the files \<^verbatim>\<open>a.zip\<close> and \<^verbatim>\<open>b.zip\<close>: both are staged,
  and the packs handed to the engine are \<^verbatim>\<open>/d/a.zip\<close> and \<^verbatim>\<open>/d/b.zip\<close>, paths in the target
  directory at which nothing exists any more, not the staged files.
\<close>

theorem mcvm_weld_dir_packs_in_target_dir:
  "raised (mcvm_weld_dir example_engine [''d''] (ignore_list []) (fresh example_packs)) = None
   \<and> os_listdir [''d'', ''unwelded'']
        (files (world_of (mcvm_weld_dir example_engine [''d''] (ignore_list []) (fresh example_packs))))
      = Inr [''a.zip'', ''b.zip'']
   \<and> welds (world_of (mcvm_weld_dir example_engine [''d''] (ignore_list []) (fresh example_packs)))
      = [\<lparr>packs = [[''d'', ''a.zip''], [''d'', ''b.zip'']],
          config_output = [''d''], directory = [''d'']\<rparr>]
   \<and> \<not> path_exists (files (world_of (mcvm_weld_dir example_engine [''d''] (ignore_list [])
                                       (fresh example_packs)))) [''d'', ''a.zip'']"
  by code_simp

text \<open>
  Claim C5 in variant 1, on the client side, with \<^verbatim>\<open>datapack_folder\<close> null and the saves
  \<^verbatim>\<open>A\<close> and \<^verbatim>\<open>B\<close>: the resolution raises \<^verbatim>\<open>AttributeError\<close> and yields no directory, and
  so does the run, after its two opening lines.
\<close>

theorem mcvm_datapack_dirs_client_raises:
  "walk_dirnames [''g'', ''saves''] example_game = Inr [''A'', ''B'']
   \<and> mcvm_datapack_dirs (example_arg ''full'' [(''datapack_folder'', JNull)] ''client'') [''g''] example_game
       = Inl AttributeError
   \<and> raised (mcvm_run (\<lambda>raw. Inr (example_arg ''full'' [(''datapack_folder'', JNull)] ''client''))
               example_engine [''mcvm_weld.py'', ''on_instance_setup'', ''{}''] (fresh example_game))
       = Some AttributeError"
  by (simp add: example_game_def example_arg_def walk_dirnames_def is_dir_def mcvm_datapack_dirs_def
        joinpath_def path_parts_def mcvm_run_def argv_get_def weld_disabled_def fresh_def
        mcvm_output_def print_def)

text \<open>
  Claim C8 in variant 2 at the hook \<^verbatim>\<open>on_load\<close> with \<^verbatim>\<open>disable_weld\<close> true: the file
  system is untouched and nothing is merged, and the result line is printed twice, after
  the diagnostic line.
\<close>

theorem nitro_main_disabled_unknown_hook:
  "nitro_main (\<lambda>raw. Inr (example_arg ''shallow'' [(''disable_weld'', JBool True)] ''client'')) example_engine
      (\<lambda>e. ''error'') [''nitro_weld.py'', ''on_load'', ''{}''] (fresh example_game)
   = \<lparr>files = example_game,
      stdout =
        [''$_Incorrect hook'',
         ''%_'' @ dumps (JObj [(''set_result'', JNull)]),
         ''%_'' @ dumps (JObj [(''set_result'', JNull)])],
      welds = []\<rparr>"
  by (simp add: nitro_main_def nitro_run_def argv_get_def recognized_def example_arg_def
        nitro_deferred_def weld_disabled_def set_result_def nitro_output_def print_def fresh_def)

section \<open>Staging prints nothing\<close>

lemma fs_step_out:
  "stdout (world_of (fs_step f w)) = stdout w" "welds (world_of (fs_step f w)) = welds w"
  by (auto simp: fs_step_def split: sum.splits)

lemma move_over_out:
  "stdout (world_of (move_over s d w)) = stdout w" "welds (world_of (move_over s d w)) = welds w"
  by (auto simp: move_over_def fs_step_def split: sum.splits outcome.splits)

lemma stage_entry_out:
  "stdout (world_of (stage_entry m dir ig e w)) = stdout w"
  "welds (world_of (stage_entry m dir ig e w)) = welds w"
  by (auto simp: stage_entry_def move_over_out split: sum.splits)

lemma stage_loop_out:
  "stdout (world_of (stage_loop m dir ig es w)) = stdout w
   \<and> welds (world_of (stage_loop m dir ig es w)) = welds w"
proof (induction es arbitrary: w)
  case Nil
  then show ?case by simp
next
  case (Cons e es)
  show ?case
  proof (cases "stage_entry m dir ig e w")
    case (Normal w1)
    with Cons [of w1] stage_entry_out [of m dir ig e w] show ?thesis by simp
  next
    case (Raised x w1)
    with stage_entry_out [of m dir ig e w] show ?thesis by simp
  qed
qed

lemma restore_entry_out:
  "stdout (world_of (restore_entry dir e pats w)) = stdout w
   \<and> welds (world_of (restore_entry dir e pats w)) = welds w"
proof (induction pats arbitrary: w)
  case Nil
  then show ?case by simp
next
  case (Cons p pats)
  show ?case
  proof (cases "py_in_str p e")
    case (Inl x)
    then show ?thesis by simp
  next
    case (Inr b)
    show ?thesis
    proof (cases b)
      case False
      with Inr Cons show ?thesis by simp
    next
      case True
      show ?thesis
      proof (cases "move_over (dir @ [''unwelded'', e]) (dir @ [e]) w")
        case (Normal w1)
        with Inr True Cons [of w1] move_over_out [of "dir @ [''unwelded'', e]" "dir @ [e]" w]
        show ?thesis by simp
      next
        case (Raised x w1)
        with Inr True move_over_out [of "dir @ [''unwelded'', e]" "dir @ [e]" w]
        show ?thesis by simp
      qed
    qed
  qed
qed

lemma restore_loop_out:
  "stdout (world_of (restore_loop dir ig es w)) = stdout w
   \<and> welds (world_of (restore_loop dir ig es w)) = welds w"
proof (induction es arbitrary: w)
  case Nil
  then show ?case by simp
next
  case (Cons e es)
  show ?case
  proof (cases "py_iter ig")
    case (Inl x)
    then show ?thesis by simp
  next
    case (Inr pats)
    show ?thesis
    proof (cases "restore_entry dir e pats w")
      case (Normal w1)
      with Inr Cons [of w1] restore_entry_out [of dir e pats w] show ?thesis by simp
    next
      case (Raised x w1)
      with Inr restore_entry_out [of dir e pats w] show ?thesis by simp
    qed
  qed
qed

lemma ensure_unwelded_out:
  "stdout (world_of (ensure_unwelded u w)) = stdout w" "welds (world_of (ensure_unwelded u w)) = welds w"
  by (auto simp: ensure_unwelded_def fs_step_out)

lemma seq_out:
  "stdout (world_of r) = s \<Longrightarrow> (\<And>w1. r = Normal w1 \<Longrightarrow> stdout (world_of (k w1)) = stdout w1)
   \<Longrightarrow> stdout (world_of (case r of Normal w1 \<Rightarrow> k w1 | Raised e w1 \<Rightarrow> Raised e w1)) = s"
  by (cases r) auto

lemma sum_out:
  "(\<And>e. x = Inl e \<Longrightarrow> stdout (world_of (f e)) = s) \<Longrightarrow> (\<And>v. x = Inr v \<Longrightarrow> stdout (world_of (g v)) = s)
   \<Longrightarrow> stdout (world_of (case x of Inl e \<Rightarrow> f e | Inr v \<Rightarrow> g v)) = s"
  by (cases x) auto

lemma nitro_weld_dir_stdout: "stdout (world_of (nitro_weld_dir run_weld dir ig mode w)) = stdout w"
  unfolding nitro_weld_dir_def Let_def
  by (intro seq_out sum_out)
     (simp_all add: ensure_unwelded_out stage_loop_out restore_loop_out fs_step_out)

lemma mcvm_weld_dir_stdout: "stdout (world_of (mcvm_weld_dir run_weld dir ig w)) = stdout w"
  unfolding mcvm_weld_dir_def Let_def
  by (intro seq_out sum_out)
     (simp_all add: ensure_unwelded_out stage_loop_out fs_step_out)

lemma weld_each_stdout:
  "(\<And>d w. stdout (world_of (weld d w)) = stdout w) \<Longrightarrow> stdout (world_of (weld_each weld ds w)) = stdout w"
  by (induction ds arbitrary: w) (auto intro!: seq_out)


lemma weld_each_nitro_stdout:
  "stdout (world_of (weld_each (\<lambda>dir. nitro_weld_dir rw dir ig mode) ds w)) = stdout w"
  by (rule weld_each_stdout) (rule nitro_weld_dir_stdout)

lemma weld_each_mcvm_stdout:
  "stdout (world_of (weld_each (\<lambda>dir. mcvm_weld_dir rw dir ig) ds w)) = stdout w"
  by (rule weld_each_stdout) (rule mcvm_weld_dir_stdout)

lemma weld_each_nitro_Normal:
  "weld_each (\<lambda>dir. nitro_weld_dir rw dir ig mode) ds w = Normal w' \<Longrightarrow> stdout w' = stdout w"
  using weld_each_nitro_stdout [of rw ig mode ds w] by simp

lemma weld_each_nitro_Raised:
  "weld_each (\<lambda>dir. nitro_weld_dir rw dir ig mode) ds w = Raised e w' \<Longrightarrow> stdout w' = stdout w"
  using weld_each_nitro_stdout [of rw ig mode ds w] by simp

lemma nitro_weld_dir_Normal:
  "nitro_weld_dir rw dir ig mode w = Normal w' \<Longrightarrow> stdout w' = stdout w"
  using nitro_weld_dir_stdout [of rw dir ig mode w] by simp

lemma nitro_weld_dir_Raised:
  "nitro_weld_dir rw dir ig mode w = Raised e w' \<Longrightarrow> stdout w' = stdout w"
  using nitro_weld_dir_stdout [of rw dir ig mode w] by simp

lemma mcvm_weld_dir_Normal:
  "mcvm_weld_dir rw dir ig w = Normal w' \<Longrightarrow> stdout w' = stdout w"
  using mcvm_weld_dir_stdout [of rw dir ig w] by simp

lemma weld_each_mcvm_Normal:
  "weld_each (\<lambda>dir. mcvm_weld_dir rw dir ig) ds w = Normal w' \<Longrightarrow> stdout w' = stdout w"
  using weld_each_mcvm_stdout [of rw ig ds w] by simp

lemma set_result_stdout:
  "stdout (set_result hook w) = stdout w @
     [''%_'' @ dumps (JObj [(''set_result'', if hook = ''on_instance_setup'' then override_struct else JNull)])]"
  by (simp add: set_result_def nitro_output_def print_def override_struct_def)

lemma nitro_output_stdout:
  "stdout (nitro_output ''start_process'' JNull w) = stdout w @ [''%_'' @ dumps (JStr ''start_process'')]"
  "stdout (nitro_output ''end_process'' JNull w) = stdout w @ [''%_'' @ dumps (JStr ''end_process'')]"
  "stdout (nitro_output ''message'' start_message w) = stdout w @ [''%_'' @ dumps (JObj [(''message'', start_message)])]"
  "stdout (nitro_output ''message'' success_message w) = stdout w @ [''%_'' @ dumps (JObj [(''message'', success_message)])]"
  by (simp_all add: nitro_output_def print_def start_message_def success_message_def dumps_str_def escape_char_def dquote_def backslash_def)

section \<open>The failure handler of variant 2\<close>

text \<open>
  Claim C7.  When \<^verbatim>\<open>run()\<close> of variant 2 raises, \<^verbatim>\<open>main()\<close> prints, after what the run had
  printed, exactly one more line and nothing after it: the message of level
  \<^verbatim>\<open>important\<close> whose contents are the \<^verbatim>\<open>Error\<close> variant with the text
  \<^verbatim>\<open>Failed to weld packs:\<close>, a newline, and the text of the exception.  What the run had
  printed before the exception is nothing, or the two opening lines, each possibly after
  the two lines of the unknown-hook branch: no error message and no \<^verbatim>\<open>end_process\<close>.
\<close>

theorem nitro_main_reports_error:
  assumes "nitro_run loads run_weld argv w = Raised e w1"
  shows "nitro_main loads run_weld exn_str argv w
           = w1\<lparr>stdout := stdout w1 @
               [''%_'' @ dumps (JObj [(''message'',
                   JObj [(''contents'',
                            JObj [(''Error'', JStr (''Failed to weld packs:'' @ [CHR 0x0A] @ exn_str e))]),
                         (''level'', JStr ''important'')])])]\<rparr>
         \<and> dumps (JStr (''Failed to weld packs:'' @ [CHR 0x0A] @ exn_str e))
             = [dquote] @ ''Failed to weld packs:'' @ [backslash, CHR ''n'']
                 @ concat (map escape_char (exn_str e)) @ [dquote]
         \<and> (stdout w1 = stdout w
            \<or> stdout w1 = stdout w @ [''%_'' @ dumps (JStr ''start_process''),
                                       ''%_'' @ dumps (JObj [(''message'', start_message)])]
            \<or> stdout w1 = stdout w @ [''$_Incorrect hook'', ''%_'' @ dumps (JObj [(''set_result'', JNull)])]
            \<or> stdout w1 = stdout w @ [''$_Incorrect hook'', ''%_'' @ dumps (JObj [(''set_result'', JNull)]),
                                       ''%_'' @ dumps (JStr ''start_process''),
                                       ''%_'' @ dumps (JObj [(''message'', start_message)])])"
proof -
  have main: "nitro_main loads run_weld exn_str argv w
           = w1\<lparr>stdout := stdout w1 @
               [''%_'' @ dumps (JObj [(''message'',
                   JObj [(''contents'',
                            JObj [(''Error'', JStr (''Failed to weld packs:'' @ [CHR 0x0A] @ exn_str e))]),
                         (''level'', JStr ''important'')])])]\<rparr>"
    using assms by (simp add: nitro_main_def nitro_output_def error_message_def print_def)
  have shape: "dumps (JStr (''Failed to weld packs:'' @ [CHR 0x0A] @ exn_str e))
             = [dquote] @ ''Failed to weld packs:'' @ [backslash, CHR ''n'']
                 @ concat (map escape_char (exn_str e)) @ [dquote]"
    by (simp add: dumps_str_def escape_char_def dquote_def backslash_def)
  have before: "stdout w1 = stdout w
            \<or> stdout w1 = stdout w @ [''%_'' @ dumps (JStr ''start_process''),
                                       ''%_'' @ dumps (JObj [(''message'', start_message)])]
            \<or> stdout w1 = stdout w @ [''$_Incorrect hook'', ''%_'' @ dumps (JObj [(''set_result'', JNull)])]
            \<or> stdout w1 = stdout w @ [''$_Incorrect hook'', ''%_'' @ dumps (JObj [(''set_result'', JNull)]),
                                       ''%_'' @ dumps (JStr ''start_process''),
                                       ''%_'' @ dumps (JObj [(''message'', start_message)])]"
    using assms
    unfolding nitro_run_def Let_def
    by (auto split: sum.splits if_splits outcome.splits
          dest!: weld_each_nitro_Normal weld_each_nitro_Raised nitro_weld_dir_Normal nitro_weld_dir_Raised
          simp: set_result_stdout nitro_output_stdout print_def recognized_def)
  from main shape before show ?thesis by blast
qed


lemma mcvm_output_stdout:
  "stdout (mcvm_output ''start_process'' JNull w) = stdout w @ [''%_'' @ dumps (JStr ''start_process'')]"
  "stdout (mcvm_output ''end_process'' JNull w) = stdout w @ [''%_'' @ dumps (JStr ''end_process'')]"
  "stdout (mcvm_output ''message'' start_message w) = stdout w @ [''%_'' @ dumps (JObj [(''message'', start_message)])]"
  "stdout (mcvm_output ''message'' success_message w) = stdout w @ [''%_'' @ dumps (JObj [(''message'', success_message)])]"
  by (simp_all add: mcvm_output_def print_def start_message_def success_message_def dumps_str_def escape_char_def dquote_def backslash_def)

text \<open>A run that fails: the server-side datapack directory \<^verbatim>\<open>/g/world/datapacks\<close> is missing.\<close>

theorem nitro_main_reports_error_witness:
  "nitro_main (\<lambda>raw. Inr (example_arg ''shallow'' [] ''server'')) example_engine (\<lambda>e. ''No such file'')
      [''nitro_weld.py'', ''on_instance_setup'', ''{}''] (fresh example_game)
   = \<lparr>files = example_game,
      stdout =
        [''%_'' @ dumps (JStr ''start_process''),
         ''%_'' @ dumps (JObj [(''message'', start_message)]),
         ''%_'' @ dumps (JObj [(''message'',
             JObj [(''contents'',
                      JObj [(''Error'', JStr (''Failed to weld packs:'' @ [CHR 0x0A] @ ''No such file''))]),
                   (''level'', JStr ''important'')])])],
      welds = []\<rparr>"
proof -
  have run: "nitro_run (\<lambda>raw. Inr (example_arg ''shallow'' [] ''server'')) example_engine
      [''nitro_weld.py'', ''on_instance_setup'', ''{}''] (fresh example_game)
    = Raised (FileNotFoundError [''g'', ''world'', ''datapacks'', ''unwelded''])
        \<lparr>files = example_game,
         stdout = [''%_'' @ dumps (JStr ''start_process''),
                   ''%_'' @ dumps (JObj [(''message'', start_message)])],
         welds = []\<rparr>"
    by code_simp
  from nitro_main_reports_error [OF run, of "\<lambda>e. ''No such file''"] show ?thesis
    by simp
qed

section \<open>The order of the protocol lines\<close>

text \<open>
  Claim C6, as the code has it.  A run of variant 2 with one of its three hooks that
  passes the skip checks and completes prints exactly five lines, in this order: the bare
  \<^verbatim>\<open>start_process\<close>; the message \<^verbatim>\<open>StartProcess: Welding packs\<close> of level \<^verbatim>\<open>important\<close>;
  after the staging, which prints nothing, the message \<^verbatim>\<open>Success: Packs welded\<close> of level
  \<^verbatim>\<open>important\<close>; the bare \<^verbatim>\<open>end_process\<close>; and last \<^verbatim>\<open>set_result\<close>, whose payload for
  \<^verbatim>\<open>on_instance_setup\<close> is the struct with \<^verbatim>\<open>main_class_override\<close> and
  \<^verbatim>\<open>jar_path_override\<close> null and \<^verbatim>\<open>classpath_extension\<close> the empty list, and null for
  the other hooks.  A run of variant 1 that passes its skip checks and completes prints
  the first four of these lines and no \<^verbatim>\<open>set_result\<close>.
\<close>

theorem run_emission_order:
  "(recognized hook \<and> argv_get argv 1 = Inr hook \<and> argv_get argv 2 = Inr raw \<and> loads raw = Inr arg
     \<and> nitro_deferred hook arg = Inr False \<and> weld_disabled arg = Inr False
     \<and> py_getitem arg ''game_dir'' = Inr g \<and> g \<noteq> JNull
     \<and> nitro_run loads run_weld argv w = Normal w'
    \<longrightarrow> stdout w' = stdout w @
          [''%_'' @ dumps (JStr ''start_process''),
           ''%_'' @ dumps (JObj [(''message'',
               JObj [(''contents'', JObj [(''StartProcess'', JStr ''Welding packs'')]),
                     (''level'', JStr ''important'')])]),
           ''%_'' @ dumps (JObj [(''message'',
               JObj [(''contents'', JObj [(''Success'', JStr ''Packs welded'')]),
                     (''level'', JStr ''important'')])]),
           ''%_'' @ dumps (JStr ''end_process''),
           ''%_'' @ dumps (JObj [(''set_result'',
               if hook = ''on_instance_setup''
               then JObj [(''main_class_override'', JNull), (''jar_path_override'', JNull),
                          (''classpath_extension'', JArr [])]
               else JNull)])])
   \<and> (argv_get argv 1 = Inr ''on_instance_setup'' \<and> argv_get argv 2 = Inr raw \<and> loads raw = Inr arg
     \<and> py_getitem arg ''update_depth'' = Inr depth \<and> \<not> py_eq_str depth ''shallow''
     \<and> weld_disabled arg = Inr False
     \<and> mcvm_run loads run_weld argv w = Normal w''
    \<longrightarrow> stdout w'' = stdout w @
          [''%_'' @ dumps (JStr ''start_process''),
           ''%_'' @ dumps (JObj [(''message'',
               JObj [(''contents'', JObj [(''StartProcess'', JStr ''Welding packs'')]),
                     (''level'', JStr ''important'')])]),
           ''%_'' @ dumps (JObj [(''message'',
               JObj [(''contents'', JObj [(''Success'', JStr ''Packs welded'')]),
                     (''level'', JStr ''important'')])]),
           ''%_'' @ dumps (JStr ''end_process'')])"
proof (intro conjI impI)
  assume a: "recognized hook \<and> argv_get argv 1 = Inr hook \<and> argv_get argv 2 = Inr raw \<and> loads raw = Inr arg
     \<and> nitro_deferred hook arg = Inr False \<and> weld_disabled arg = Inr False
     \<and> py_getitem arg ''game_dir'' = Inr g \<and> g \<noteq> JNull
     \<and> nitro_run loads run_weld argv w = Normal w'"
  then have "nitro_run loads run_weld argv w = Normal w'" by simp
  with a have "stdout w' = stdout w @
          [''%_'' @ dumps (JStr ''start_process''),
           ''%_'' @ dumps (JObj [(''message'', start_message)]),
           ''%_'' @ dumps (JObj [(''message'', success_message)]),
           ''%_'' @ dumps (JStr ''end_process''),
           ''%_'' @ dumps (JObj [(''set_result'',
               if hook = ''on_instance_setup'' then override_struct else JNull)])]"
    unfolding nitro_run_def Let_def
    by (auto split: sum.splits outcome.splits
          dest!: weld_each_nitro_Normal nitro_weld_dir_Normal
          simp: set_result_stdout nitro_output_stdout)
  then show "stdout w' = stdout w @
          [''%_'' @ dumps (JStr ''start_process''),
           ''%_'' @ dumps (JObj [(''message'',
               JObj [(''contents'', JObj [(''StartProcess'', JStr ''Welding packs'')]),
                     (''level'', JStr ''important'')])]),
           ''%_'' @ dumps (JObj [(''message'',
               JObj [(''contents'', JObj [(''Success'', JStr ''Packs welded'')]),
                     (''level'', JStr ''important'')])]),
           ''%_'' @ dumps (JStr ''end_process''),
           ''%_'' @ dumps (JObj [(''set_result'',
               if hook = ''on_instance_setup''
               then JObj [(''main_class_override'', JNull), (''jar_path_override'', JNull),
                          (''classpath_extension'', JArr [])]
               else JNull)])]"
    by (simp only: start_message_def success_message_def override_struct_def)
next
  assume a: "argv_get argv 1 = Inr ''on_instance_setup'' \<and> argv_get argv 2 = Inr raw \<and> loads raw = Inr arg
     \<and> py_getitem arg ''update_depth'' = Inr depth \<and> \<not> py_eq_str depth ''shallow''
     \<and> weld_disabled arg = Inr False
     \<and> mcvm_run loads run_weld argv w = Normal w''"
  then have "mcvm_run loads run_weld argv w = Normal w''" by simp
  with a have "stdout w'' = stdout w @
          [''%_'' @ dumps (JStr ''start_process''),
           ''%_'' @ dumps (JObj [(''message'', start_message)]),
           ''%_'' @ dumps (JObj [(''message'', success_message)]),
           ''%_'' @ dumps (JStr ''end_process'')]"
    unfolding mcvm_run_def Let_def
    by (auto split: sum.splits outcome.splits
          dest!: weld_each_mcvm_Normal mcvm_weld_dir_Normal
          simp: mcvm_output_stdout)
  then show "stdout w'' = stdout w @
          [''%_'' @ dumps (JStr ''start_process''),
           ''%_'' @ dumps (JObj [(''message'',
               JObj [(''contents'', JObj [(''StartProcess'', JStr ''Welding packs'')]),
                     (''level'', JStr ''important'')])]),
           ''%_'' @ dumps (JObj [(''message'',
               JObj [(''contents'', JObj [(''Success'', JStr ''Packs welded'')]),
                     (''level'', JStr ''important'')])]),
           ''%_'' @ dumps (JStr ''end_process'')]"
    by (simp only: start_message_def success_message_def)
qed


lemma outcome_Normal: "raised r = None \<Longrightarrow> r = Normal (world_of r)"
  by (cases r) simp_all

text \<open>Both orders at a run that completes on the example game directory.\<close>

theorem run_emission_order_witness:
  "stdout (world_of (nitro_run (\<lambda>raw. Inr (example_arg ''shallow'' [] ''client'')) example_engine
             [''nitro_weld.py'', ''on_instance_setup'', ''{}''] (fresh example_game)))
     = [''%_'' @ dumps (JStr ''start_process''),
        ''%_'' @ dumps (JObj [(''message'',
            JObj [(''contents'', JObj [(''StartProcess'', JStr ''Welding packs'')]),
                  (''level'', JStr ''important'')])]),
        ''%_'' @ dumps (JObj [(''message'',
            JObj [(''contents'', JObj [(''Success'', JStr ''Packs welded'')]),
                  (''level'', JStr ''important'')])]),
        ''%_'' @ dumps (JStr ''end_process''),
        ''%_'' @ dumps (JObj [(''set_result'',
            JObj [(''main_class_override'', JNull), (''jar_path_override'', JNull),
                  (''classpath_extension'', JArr [])])])]
   \<and> stdout (world_of (mcvm_run
             (\<lambda>raw. Inr (example_arg ''full'' [(''datapack_folder'', JStr ''saves/A/datapacks'')] ''client''))
             example_engine [''mcvm_weld.py'', ''on_instance_setup'', ''{}''] (fresh example_game)))
     = [''%_'' @ dumps (JStr ''start_process''),
        ''%_'' @ dumps (JObj [(''message'',
            JObj [(''contents'', JObj [(''StartProcess'', JStr ''Welding packs'')]),
                  (''level'', JStr ''important'')])]),
        ''%_'' @ dumps (JObj [(''message'',
            JObj [(''contents'', JObj [(''Success'', JStr ''Packs welded'')]),
                  (''level'', JStr ''important'')])]),
        ''%_'' @ dumps (JStr ''end_process'')]"
proof -
  let ?argv = "[''nitro_weld.py'', ''on_instance_setup'', ''{}'']"
  let ?argv1 = "[''mcvm_weld.py'', ''on_instance_setup'', ''{}'']"
  let ?arg = "example_arg ''shallow'' [] ''client''"
  let ?arg1 = "example_arg ''full'' [(''datapack_folder'', JStr ''saves/A/datapacks'')] ''client''"
  let ?r = "nitro_run (\<lambda>raw. Inr ?arg) example_engine ?argv (fresh example_game)"
  let ?r1 = "mcvm_run (\<lambda>raw. Inr ?arg1) example_engine ?argv1 (fresh example_game)"
  have "raised ?r = None" by code_simp
  then have run: "?r = Normal (world_of ?r)" by (rule outcome_Normal)
  have "raised ?r1 = None" by code_simp
  then have run1: "?r1 = Normal (world_of ?r1)" by (rule outcome_Normal)
  have pre: "recognized ''on_instance_setup''" "argv_get ?argv 1 = Inr ''on_instance_setup''"
    "argv_get ?argv 2 = Inr ''{}''" "nitro_deferred ''on_instance_setup'' ?arg = Inr False"
    "weld_disabled ?arg = Inr False" "py_getitem ?arg ''game_dir'' = Inr (JStr ''/g'')"
    by (simp_all add: recognized_def argv_get_def nitro_deferred_def weld_disabled_def example_arg_def)
  have pre1: "argv_get ?argv1 1 = Inr ''on_instance_setup''"
    "argv_get ?argv1 2 = Inr ''{}''" "py_getitem ?arg1 ''update_depth'' = Inr (JStr ''full'')"
    "\<not> py_eq_str (JStr ''full'') ''shallow''" "weld_disabled ?arg1 = Inr False"
    by (simp_all add: argv_get_def weld_disabled_def example_arg_def)
  from run_emission_order [of "''on_instance_setup''" ?argv "''{}''" "\<lambda>raw. Inr ?arg" ?arg "JStr ''/g''"
              example_engine "fresh example_game" "world_of ?r"] pre run
  have first: "stdout (world_of ?r) = stdout (fresh example_game) @
        [''%_'' @ dumps (JStr ''start_process''),
        ''%_'' @ dumps (JObj [(''message'',
            JObj [(''contents'', JObj [(''StartProcess'', JStr ''Welding packs'')]),
                  (''level'', JStr ''important'')])]),
        ''%_'' @ dumps (JObj [(''message'',
            JObj [(''contents'', JObj [(''Success'', JStr ''Packs welded'')]),
                  (''level'', JStr ''important'')])]),
        ''%_'' @ dumps (JStr ''end_process''),
        ''%_'' @ dumps (JObj [(''set_result'',
            JObj [(''main_class_override'', JNull), (''jar_path_override'', JNull),
                  (''classpath_extension'', JArr [])])])]"
    by simp
  from run_emission_order [of _ ?argv1 "''{}''" "\<lambda>raw. Inr ?arg1" ?arg1 _
              example_engine "fresh example_game" _ "JStr ''full''" "world_of ?r1"] pre1 run1
  have second: "stdout (world_of ?r1) = stdout (fresh example_game) @
        [''%_'' @ dumps (JStr ''start_process''),
        ''%_'' @ dumps (JObj [(''message'',
            JObj [(''contents'', JObj [(''StartProcess'', JStr ''Welding packs'')]),
                  (''level'', JStr ''important'')])]),
        ''%_'' @ dumps (JObj [(''message'',
            JObj [(''contents'', JObj [(''Success'', JStr ''Packs welded'')]),
                  (''level'', JStr ''important'')])]),
        ''%_'' @ dumps (JStr ''end_process'')]"
    by simp
  from first second show ?thesis by (simp add: fresh_def)
qed

text \<open>
  Claim C6 as it is stated fails at the instance-setup hook: the run completes, and its
  last line is not the result struct with all three fields null, because
  \<^verbatim>\<open>classpath_extension\<close> is the empty list.
\<close>

theorem set_result_struct_counterexample:
  "raised (nitro_run (\<lambda>raw. Inr (example_arg ''shallow'' [] ''client'')) example_engine
             [''nitro_weld.py'', ''on_instance_setup'', ''{}''] (fresh example_game)) = None
   \<and> last (stdout (world_of (nitro_run (\<lambda>raw. Inr (example_arg ''shallow'' [] ''client'')) example_engine
             [''nitro_weld.py'', ''on_instance_setup'', ''{}''] (fresh example_game))))
      \<noteq> ''%_'' @ dumps (JObj [(''set_result'',
            JObj [(''main_class_override'', JNull), (''jar_path_override'', JNull),
                  (''classpath_extension'', JNull)])])"
  by code_simp

section \<open>The file system seen through its paths\<close>

lemma is_dir_Cons:
  "is_dir t (x # xs) = (case t of File c \<Rightarrow> False | Dir kids \<Rightarrow>
      (case map_of kids x of None \<Rightarrow> False | Some k \<Rightarrow> is_dir k xs))"
  by (cases t) (auto simp: is_dir_def split: option.splits)

lemma kind_at_Nil: "kind_at t [] = Some (kind_of t)"
  by (simp add: kind_at_def)

lemma kind_at_Cons:
  "kind_at t (x # xs) = (case t of File c \<Rightarrow> None | Dir kids \<Rightarrow>
      (case map_of kids x of None \<Rightarrow> None | Some k \<Rightarrow> kind_at k xs))"
  by (cases t) (auto simp: kind_at_def split: option.splits)

lemma kind_at_alter:
  "p \<noteq> [] \<Longrightarrow> is_dir t (butlast p) \<Longrightarrow>
   kind_at (alter p v t) q =
     (if prefix p q then (case v of None \<Rightarrow> None | Some n \<Rightarrow> kind_at n (drop (length p) q))
      else kind_at t q)"
proof (induction p arbitrary: t q)
  case Nil
  then show ?case by simp
next
  case (Cons x xs)
  show ?case
  proof (cases xs)
    case Nil
    with Cons.prems obtain kids where t: "t = Dir kids"
      by (cases t) (auto simp: is_dir_def)
    show ?thesis
    proof (cases q)
      case Nil
      with \<open>xs = []\<close> t show ?thesis by (simp add: kind_at_Nil)
    next
      case (Cons y ys)
      with \<open>xs = []\<close> t show ?thesis
        by (cases v) (auto simp: kind_at_Cons update_conv' delete_conv')
    qed
  next
    case (Cons y ys)
    with Cons.prems obtain kids k where t: "t = Dir kids" "map_of kids x = Some k" "is_dir k (butlast xs)"
      by (cases t) (auto simp: is_dir_Cons split: option.splits)
    show ?thesis
    proof (cases q)
      case Nil
      with Cons t show ?thesis by (simp add: kind_at_Nil)
    next
      case q: (Cons z zs)
      from Cons have "xs \<noteq> []" by simp
      from Cons.IH [OF this t(3), of zs] q Cons t show ?thesis
        by (auto simp: kind_at_Cons update_conv' split: option.splits)
    qed
  qed
qed


lemma lookup_append:
  "lookup t (p @ r) = (case lookup t p of None \<Rightarrow> None | Some n \<Rightarrow> lookup n r)"
proof (induction p arbitrary: t)
  case Nil
  then show ?case by simp
next
  case (Cons x xs)
  then show ?case by (cases t) (auto split: option.splits)
qed

lemma kind_at_append:
  "kind_at t (p @ r) = (case lookup t p of None \<Rightarrow> None | Some n \<Rightarrow> kind_at n r)"
  by (simp add: kind_at_def lookup_append split: option.splits)

lemma kind_at_below_None: "kind_at t p = None \<Longrightarrow> kind_at t (p @ r) = None"
  by (simp add: kind_at_append) (simp add: kind_at_def)

lemma kind_at_leaf:
  "kind_at (File c) zs = (if zs = [] then Some (IsFile c) else None)"
  "kind_at (Dir []) zs = (if zs = [] then Some IsDir else None)"
  by (cases zs; simp add: kind_at_Nil kind_at_Cons)+

lemma kind_at_below_file:
  assumes "kind_at t p = Some (IsFile c)" "r \<noteq> []"
  shows "kind_at t (p @ r) = None"
proof -
  from assms(1) obtain n where n: "lookup t p = Some n" "kind_of n = IsFile c"
    by (auto simp: kind_at_def)
  then have "n = File c" by (cases n) auto
  with n assms(2) show ?thesis by (simp add: kind_at_append kind_at_leaf)
qed

lemma kind_at_above:
  assumes "kind_at t (p @ r) \<noteq> None" "r \<noteq> []"
  shows "kind_at t p = Some IsDir"
proof (cases "kind_at t p")
  case None
  with kind_at_below_None [of t p r] assms show ?thesis by simp
next
  case (Some k)
  with kind_at_below_file [of t p _ r] assms show ?thesis by (cases k) auto
qed

lemma path_exists_kind: "path_exists t p = (kind_at t p \<noteq> None)"
  by (simp add: path_exists_def kind_at_def)

lemma is_file_kind: "is_file t p = (\<exists>c. kind_at t p = Some (IsFile c))"
  by (auto simp: is_file_def kind_at_def split: option.splits node.splits)

lemma is_dir_kind: "is_dir t p = (kind_at t p = Some IsDir)"
  by (auto simp: is_dir_def kind_at_def split: option.splits node.splits)

lemma lookup_None_kind: "(lookup t p = None) = (kind_at t p = None)"
  by (simp add: kind_at_def)

lemma parent_is_dir:
  assumes "kind_at t p \<noteq> None" "p \<noteq> []"
  shows "is_dir t (butlast p)"
proof -
  from assms(2) have "p = butlast p @ [last p]" by simp
  with kind_at_above [of t "butlast p" "[last p]"] assms(1) show ?thesis
    by (simp add: is_dir_kind)
qed

lemma os_listdir_kind:
  assumes "os_listdir d t = Inr es"
  shows "kind_at t d = Some IsDir" and "set es = {e. kind_at t (d @ [e]) \<noteq> None}"
proof -
  from assms obtain kids where k: "lookup t d = Some (Dir kids)" and es: "es = remdups (map fst kids)"
    by (auto simp: os_listdir_def split: option.splits node.splits)
  from k show "kind_at t d = Some IsDir" by (simp add: kind_at_def)
  have "\<And>e. (kind_at t (d @ [e]) \<noteq> None) = (e \<in> fst ` set kids)"
  proof -
    fix e
    show "(kind_at t (d @ [e]) \<noteq> None) = (e \<in> fst ` set kids)"
      using k map_of_eq_None_iff [of kids e]
      by (cases "map_of kids e") (simp_all add: kind_at_append kind_at_Cons kind_at_Nil)
  qed
  with es show "set es = {e. kind_at t (d @ [e]) \<noteq> None}" by auto
qed

lemma os_remove_kind:
  assumes "os_remove p t = Inr t'" "p \<noteq> []"
  shows "kind_at t' q = (if prefix p q then None else kind_at t q)"
proof -
  from assms obtain c where f: "lookup t p = Some (File c)" and t': "t' = alter p None t"
    by (auto simp: os_remove_def split: option.splits node.splits)
  from f have "kind_at t p \<noteq> None" by (simp add: kind_at_def)
  from parent_is_dir [OF this assms(2)] kind_at_alter [OF assms(2), of t None q] t'
  show ?thesis by simp
qed

lemma os_mkdir_kind:
  assumes "os_mkdir p t = Inr t'"
  shows "kind_at t p = None"
    and "kind_at t' q = (if prefix p q then (if q = p then Some IsDir else None) else kind_at t q)"
proof -
  from assms have n: "\<not> path_exists t p" by (auto simp: os_mkdir_def split: if_splits)
  then show "kind_at t p = None" by (simp add: path_exists_kind)
  from n have ne: "p \<noteq> []" by (auto simp: path_exists_def)
  from assms n obtain kids where "lookup t (butlast p) = Some (Dir kids)" and t': "t' = alter p (Some (Dir [])) t"
    by (auto simp: os_mkdir_def split: option.splits node.splits)
  then have "is_dir t (butlast p)" by (simp add: is_dir_def)
  from kind_at_alter [OF ne this, of "Some (Dir [])" q] t'
  show "kind_at t' q = (if prefix p q then (if q = p then Some IsDir else None) else kind_at t q)"
    by (auto simp: prefix_def kind_at_leaf)
qed

lemma pack_save_kind:
  assumes "pack_save p c t = Inr t'" "p \<noteq> []"
  shows "kind_at t' q = (if prefix p q then (if q = p then Some (IsFile c) else None) else kind_at t q)"
proof -
  from assms obtain kids where "lookup t (butlast p) = Some (Dir kids)" and t': "t' = alter p (Some (File c)) t"
    by (auto simp: pack_save_def split: option.splits node.splits)
  then have "is_dir t (butlast p)" by (simp add: is_dir_def)
  from kind_at_alter [OF assms(2) this, of "Some (File c)" q] t'
  show ?thesis
    by (auto simp: prefix_def kind_at_leaf)
qed

lemma os_rename_kind:
  assumes "os_rename src dst t = Inr t'" "src \<noteq> dst" "kind_at t dst = None"
  shows "\<not> prefix src dst" and "\<not> prefix dst src" and "kind_at t src \<noteq> None"
    and "kind_at t' q = (if prefix dst q then kind_at t (src @ drop (length dst) q)
                         else if prefix src q then None else kind_at t q)"
proof -
  from assms(1) obtain n where n: "lookup t src = Some n"
    by (auto simp: os_rename_def split: option.splits)
  then show ex: "kind_at t src \<noteq> None" by (simp add: kind_at_def)
  from assms(1,2) n show np: "\<not> prefix src dst"
    by (auto simp: os_rename_def split: if_splits)
  show nq: "\<not> prefix dst src"
  proof
    assume "prefix dst src"
    then obtain r where "src = dst @ r" by (auto simp: prefix_def)
    with kind_at_below_None [OF assms(3), of r] ex show False by simp
  qed
  from np have sne: "src \<noteq> []" by auto
  from assms(3) have dne: "dst \<noteq> []" by (auto simp: kind_at_Nil)
  from assms np n obtain kids where pd: "lookup t (butlast dst) = Some (Dir kids)"
    and t': "t' = alter dst (Some n) (alter src None t)"
    by (auto simp: os_rename_def lookup_None_kind split: option.splits node.splits if_splits)
  from parent_is_dir [OF ex sne] have ps: "is_dir t (butlast src)" .
  have t1: "\<And>q. kind_at (alter src None t) q = (if prefix src q then None else kind_at t q)"
    using kind_at_alter [OF sne ps, of None] by simp
  have "\<not> prefix src (butlast dst)"
    using np by (metis prefix_order.order_trans prefixeq_butlast)
  with t1 [of "butlast dst"] pd have pd1: "is_dir (alter src None t) (butlast dst)"
    by (simp add: is_dir_kind kind_at_def)
  from n have below: "\<And>r. kind_at n r = kind_at t (src @ r)"
    by (simp add: kind_at_append)
  from kind_at_alter [OF dne pd1, of "Some n" q] t' t1 [of q] below
  show "kind_at t' q = (if prefix dst q then kind_at t (src @ drop (length dst) q)
                         else if prefix src q then None else kind_at t q)"
    by simp
qed


section \<open>The two passes of the stager\<close>

lemma fs_step_Normal:
  "fs_step f w = Normal w' \<Longrightarrow> f (files w) = Inr (files w') \<and> w' = w\<lparr>files := files w'\<rparr>"
  by (auto simp: fs_step_def split: sum.splits)

lemma move_over_Normal:
  assumes "move_over src dst w = Normal w'" "src \<noteq> dst" "dst \<noteq> []"
  shows "\<not> prefix src dst" and "\<not> prefix dst src" and "kind_at (files w) src \<noteq> None"
    and "kind_at (files w') q =
           (if prefix dst q then kind_at (files w) (src @ drop (length dst) q)
            else if prefix src q then None else kind_at (files w) q)"
proof -
  obtain t1 where t1: "os_rename src dst t1 = Inr (files w')"
    and k1: "\<And>q. kind_at t1 q = (if prefix dst q then None else kind_at (files w) q)"
  proof (cases "path_exists (files w) dst")
    case True
    with assms(1) obtain w1 where rm: "fs_step (os_remove dst) w = Normal w1"
      and rn: "fs_step (os_rename src dst) w1 = Normal w'"
      by (auto simp: move_over_def split: outcome.splits)
    from fs_step_Normal [OF rm] have "os_remove dst (files w) = Inr (files w1)" by simp
    from os_remove_kind [OF this assms(3)]
    have k: "\<And>q. kind_at (files w1) q = (if prefix dst q then None else kind_at (files w) q)" .
    from fs_step_Normal [OF rn] have "os_rename src dst (files w1) = Inr (files w')" by simp
    from that [OF this k] show ?thesis .
  next
    case False
    with assms(1) have rn: "fs_step (os_rename src dst) w = Normal w'"
      by (auto simp: move_over_def)
    from False have "kind_at (files w) dst = None" by (simp add: path_exists_kind)
    then have k: "\<And>q. kind_at (files w) q = (if prefix dst q then None else kind_at (files w) q)"
      by (auto simp: prefix_def kind_at_below_None)
    from fs_step_Normal [OF rn] have "os_rename src dst (files w) = Inr (files w')" by simp
    from that [OF this k] show ?thesis .
  qed
  from k1 [of dst] have d: "kind_at t1 dst = None" by simp
  note rn = os_rename_kind [OF t1 assms(2) d]
  from rn(1) show np: "\<not> prefix src dst" .
  from rn(2) show nq: "\<not> prefix dst src" .
  from rn(3) k1 [of src] show "kind_at (files w) src \<noteq> None" by (simp split: if_splits)
  have "\<And>r. \<not> prefix dst (src @ r)"
    using np nq by (metis prefix_same_cases prefixI)
  with rn(4) [of q] k1 show "kind_at (files w') q =
           (if prefix dst q then kind_at (files w) (src @ drop (length dst) q)
            else if prefix src q then None else kind_at (files w) q)"
    by simp
qed

lemma move_over_world:
  "move_over src dst w = Normal w' \<Longrightarrow> w' = w\<lparr>files := files w'\<rparr>"
  by (auto simp: move_over_def fs_step_def split: outcome.splits sum.splits if_splits)


lemma stage_entry_skip:
  assumes "stage_entry m dir ig e w = Normal w'"
    and "\<not> (\<not> sublist m e \<and> is_file (files w) (dir @ [e]))"
  shows "w' = w"
  using assms by (auto simp: stage_entry_def split: if_splits sum.splits)

lemma stage_entry_move:
  assumes "stage_entry m dir ig e w = Normal w'"
    and "\<not> sublist m e" "is_file (files w) (dir @ [e])"
  shows "e \<noteq> ''unwelded''"
    and "kind_at (files w') (dir @ [e']) = (if e' = e then None else kind_at (files w) (dir @ [e']))"
    and "e' \<noteq> e \<Longrightarrow> kind_at (files w') (dir @ ''unwelded'' # e' # r)
                        = kind_at (files w) (dir @ ''unwelded'' # e' # r)"
proof -
  from assms have mv: "move_over (dir @ [e]) (dir @ [''unwelded'', e]) w = Normal w'"
    by (auto simp: stage_entry_def split: if_splits sum.splits)
  note m = move_over_Normal [OF mv]
  from m(1) show u: "e \<noteq> ''unwelded''" by simp
  from m(4) [of "dir @ [e']"] show
    "kind_at (files w') (dir @ [e']) = (if e' = e then None else kind_at (files w) (dir @ [e']))"
    by auto
  from m(4) [of "dir @ ''unwelded'' # e' # r"] u
  show "e' \<noteq> e \<Longrightarrow> kind_at (files w') (dir @ ''unwelded'' # e' # r)
                        = kind_at (files w) (dir @ ''unwelded'' # e' # r)"
    by auto
qed


lemma stage_loop_post:
  "stage_loop m dir ig es w = Normal w' \<Longrightarrow> \<not> sublist m e \<Longrightarrow> is_file (files w') (dir @ [e]) \<Longrightarrow>
   is_file (files w) (dir @ [e]) \<and> e \<notin> set es"
proof (induction es arbitrary: w)
  case Nil
  then show ?case by simp
next
  case (Cons e0 es)
  from Cons.prems(1) obtain w1 where s: "stage_entry m dir ig e0 w = Normal w1"
    and l: "stage_loop m dir ig es w1 = Normal w'"
    by (auto split: outcome.splits)
  from Cons.IH [OF l Cons.prems(2,3)] have f1: "is_file (files w1) (dir @ [e])" and n: "e \<notin> set es"
    by simp_all
  show ?case
  proof (cases "\<not> sublist m e0 \<and> is_file (files w) (dir @ [e0])")
    case True
    from stage_entry_move(2) [OF s, of e] True f1 n show ?thesis
      by (auto simp: is_file_kind split: if_splits)
  next
    case False
    from stage_entry_skip [OF s False] f1 n False Cons.prems(2) show ?thesis by auto
  qed
qed

lemma stage_loop_frame:
  "stage_loop m dir ig es w = Normal w' \<Longrightarrow> \<not> (\<not> sublist m e \<and> is_file (files w) (dir @ [e])) \<Longrightarrow>
   kind_at (files w') (dir @ ''unwelded'' # e # r) = kind_at (files w) (dir @ ''unwelded'' # e # r)"
proof (induction es arbitrary: w)
  case Nil
  then show ?case by simp
next
  case (Cons e0 es)
  from Cons.prems(1) obtain w1 where s: "stage_entry m dir ig e0 w = Normal w1"
    and l: "stage_loop m dir ig es w1 = Normal w'"
    by (auto split: outcome.splits)
  show ?case
  proof (cases "\<not> sublist m e0 \<and> is_file (files w) (dir @ [e0])")
    case True
    with Cons.prems(2) have ne: "e \<noteq> e0" by auto
    from stage_entry_move(2) [OF s, of e] True ne
    have "kind_at (files w1) (dir @ [e]) = kind_at (files w) (dir @ [e])" by simp
    with Cons.prems(2) have "\<not> (\<not> sublist m e \<and> is_file (files w1) (dir @ [e]))"
      by (simp add: is_file_kind)
    from Cons.IH [OF l this] stage_entry_move(3) [OF s _ _ ne, of r] True show ?thesis by simp
  next
    case False
    from stage_entry_skip [OF s False] Cons.IH [OF l, of ] Cons.prems(2) show ?thesis by simp
  qed
qed



lemma restore_entry_absent:
  "restore_entry dir e pats w = Normal w' \<Longrightarrow> kind_at (files w) (dir @ [''unwelded'', e]) = None \<Longrightarrow>
   \<not> hit pats e \<and> w' = w"
proof (induction pats arbitrary: w)
  case Nil
  then show ?case by (simp add: hit_def)
next
  case (Cons p pats)
  from Cons.prems(1) obtain b where b: "py_in_str p e = Inr b"
    by (auto split: sum.splits)
  show ?case
  proof (cases b)
    case True
    with b Cons.prems(1) obtain w1 where "move_over (dir @ [''unwelded'', e]) (dir @ [e]) w = Normal w1"
      by (auto split: outcome.splits)
    from move_over_Normal(3) [OF this] Cons.prems(2) show ?thesis by simp
  next
    case False
    with b Cons.prems(1) have "restore_entry dir e pats w = Normal w'" by simp
    from Cons.IH [OF this Cons.prems(2)] b False show ?thesis by (simp add: hit_def)
  qed
qed

lemma restore_entry_miss:
  "restore_entry dir e pats w = Normal w' \<Longrightarrow> \<not> hit pats e \<Longrightarrow> w' = w"
proof (induction pats arbitrary: w)
  case Nil
  then show ?case by simp
next
  case (Cons p pats)
  from Cons.prems(1) obtain b where b: "py_in_str p e = Inr b"
    by (auto split: sum.splits)
  with Cons.prems(2) have nb: "\<not> b" and nh: "\<not> hit pats e" by (auto simp: hit_def)
  with b Cons.prems(1) have "restore_entry dir e pats w = Normal w'" by simp
  from Cons.IH [OF this nh] show ?case .
qed

lemma restore_entry_hit:
  "restore_entry dir e pats w = Normal w' \<Longrightarrow> hit pats e \<Longrightarrow>
     e \<noteq> ''unwelded''
   \<and> (\<forall>r. kind_at (files w') (dir @ ''unwelded'' # e # r) = None)
   \<and> (\<forall>e'. e' \<noteq> e \<longrightarrow> kind_at (files w') (dir @ [e']) = kind_at (files w) (dir @ [e']))
   \<and> (\<forall>e' r. e' \<noteq> e \<longrightarrow> kind_at (files w') (dir @ ''unwelded'' # e' # r)
                            = kind_at (files w) (dir @ ''unwelded'' # e' # r))"
proof (induction pats arbitrary: w)
  case Nil
  then show ?case by (simp add: hit_def)
next
  case (Cons p pats)
  from Cons.prems(1) obtain b where b: "py_in_str p e = Inr b"
    by (auto split: sum.splits)
  show ?case
  proof (cases b)
    case False
    with b Cons.prems have "restore_entry dir e pats w = Normal w'" "hit pats e"
      by (auto simp: hit_def)
    from Cons.IH [OF this] show ?thesis .
  next
    case True
    with b Cons.prems(1) obtain w1 where mv: "move_over (dir @ [''unwelded'', e]) (dir @ [e]) w = Normal w1"
      and rest: "restore_entry dir e pats w1 = Normal w'"
      by (auto split: outcome.splits)
    note m = move_over_Normal [OF mv]
    from m(2) have u: "e \<noteq> ''unwelded''" by simp
    from m(4) [of "dir @ [''unwelded'', e]"] u
    have "kind_at (files w1) (dir @ [''unwelded'', e]) = None" by simp
    from restore_entry_absent [OF rest this] have same: "w' = w1" by simp
    have "\<And>r. kind_at (files w1) (dir @ ''unwelded'' # e # r) = None"
      using m(4) [of "dir @ ''unwelded'' # e # _"] u by simp
    moreover have "\<And>e'. e' \<noteq> e \<Longrightarrow> kind_at (files w1) (dir @ [e']) = kind_at (files w) (dir @ [e'])"
      using m(4) [of "dir @ [_]"] by simp
    moreover have "\<And>e' r. e' \<noteq> e \<Longrightarrow> kind_at (files w1) (dir @ ''unwelded'' # e' # r)
                            = kind_at (files w) (dir @ ''unwelded'' # e' # r)"
      using m(4) [of "dir @ ''unwelded'' # _ # _"] u by simp
    ultimately show ?thesis using u same by simp
  qed
qed


lemma restore_loop_step:
  assumes "restore_loop dir ig (e0 # es) w = Normal w'"
  obtains pats w1 where "py_iter ig = Inr pats" "restore_entry dir e0 pats w = Normal w1"
    "restore_loop dir ig es w1 = Normal w'"
  using assms by (auto split: sum.splits outcome.splits)

lemma restore_loop_frame:
  "restore_loop dir ig es w = Normal w' \<Longrightarrow> \<not> restored ig e \<Longrightarrow>
   kind_at (files w') (dir @ ''unwelded'' # e # r) = kind_at (files w) (dir @ ''unwelded'' # e # r)"
proof (induction es arbitrary: w)
  case Nil
  then show ?case by simp
next
  case (Cons e0 es)
  from Cons.prems(1) obtain pats w1 where it: "py_iter ig = Inr pats"
    and s: "restore_entry dir e0 pats w = Normal w1" and l: "restore_loop dir ig es w1 = Normal w'"
    by (rule restore_loop_step)
  have "kind_at (files w1) (dir @ ''unwelded'' # e # r) = kind_at (files w) (dir @ ''unwelded'' # e # r)"
  proof (cases "hit pats e0")
    case True
    with it Cons.prems(2) have "e \<noteq> e0" by (auto simp: restored_def)
    with restore_entry_hit [OF s True] show ?thesis by simp
  next
    case False
    from restore_entry_miss [OF s False] show ?thesis by simp
  qed
  with Cons.IH [OF l Cons.prems(2)] show ?case by simp
qed


lemma restore_loop_clears:
  "restore_loop dir ig es w = Normal w' \<Longrightarrow>
   (\<And>e. restored ig e \<Longrightarrow> e \<notin> set es \<Longrightarrow> kind_at (files w) (dir @ [''unwelded'', e]) = None) \<Longrightarrow>
   restored ig e \<Longrightarrow> kind_at (files w') (dir @ ''unwelded'' # e # r) = None"
proof (induction es arbitrary: w)
  case Nil
  from Nil.prems(2) [OF Nil.prems(3)] have "kind_at (files w) (dir @ [''unwelded'', e]) = None" by simp
  from kind_at_below_None [OF this, of r] Nil.prems(1) show ?case by simp
next
  case (Cons e0 es)
  from Cons.prems(1) obtain pats w1 where it: "py_iter ig = Inr pats"
    and s: "restore_entry dir e0 pats w = Normal w1" and l: "restore_loop dir ig es w1 = Normal w'"
    by (rule restore_loop_step)
  have "kind_at (files w1) (dir @ [''unwelded'', e']) = None" if r': "restored ig e'" and n: "e' \<notin> set es" for e'
  proof (cases "e' = e0")
    case True
    with r' it have "hit pats e0" by (simp add: restored_def)
    with restore_entry_hit [OF s this] True show ?thesis by simp
  next
    case False
    with n have "e' \<notin> set (e0 # es)" by simp
    from Cons.prems(2) [OF r' this] have k: "kind_at (files w) (dir @ [''unwelded'', e']) = None" .
    show ?thesis
    proof (cases "hit pats e0")
      case True
      from restore_entry_hit [OF s True] False k show ?thesis by simp
    next
      case h: False
      from restore_entry_miss [OF s h] k show ?thesis by simp
    qed
  qed
  from Cons.IH [OF l this Cons.prems(3)] show ?case by simp
qed

lemma restore_loop_files:
  "restore_loop dir ig es w = Normal w' \<Longrightarrow> is_file (files w') (dir @ [e]) \<Longrightarrow>
   is_file (files w) (dir @ [e]) \<or> restored ig e"
proof (induction es arbitrary: w)
  case Nil
  then show ?case by simp
next
  case (Cons e0 es)
  from Cons.prems(1) obtain pats w1 where it: "py_iter ig = Inr pats"
    and s: "restore_entry dir e0 pats w = Normal w1" and l: "restore_loop dir ig es w1 = Normal w'"
    by (rule restore_loop_step)
  from Cons.IH [OF l Cons.prems(2)] have "is_file (files w1) (dir @ [e]) \<or> restored ig e" .
  then show ?case
  proof
    assume f1: "is_file (files w1) (dir @ [e])"
    show ?thesis
    proof (cases "hit pats e0")
      case True
      show ?thesis
      proof (cases "e = e0")
        case e: True
        with True it show ?thesis by (simp add: restored_def)
      next
        case False
        with restore_entry_hit [OF s True] f1 show ?thesis by (simp add: is_file_kind)
      qed
    next
      case False
      from restore_entry_miss [OF s False] f1 show ?thesis by simp
    qed
  qed simp
qed


section \<open>What a completed run leaves behind\<close>

lemma ensure_unwelded_Normal:
  assumes "ensure_unwelded (dir @ [''unwelded'']) w = Normal w1"
  shows "kind_at (files w) (dir @ [''unwelded'']) \<noteq> None \<Longrightarrow> w1 = w"
    and "is_file (files w1) (dir @ [e]) \<Longrightarrow> is_file (files w) (dir @ [e])"
proof -
  show "kind_at (files w) (dir @ [''unwelded'']) \<noteq> None \<Longrightarrow> w1 = w"
    using assms by (simp add: ensure_unwelded_def path_exists_kind)
  show "is_file (files w1) (dir @ [e]) \<Longrightarrow> is_file (files w) (dir @ [e])"
  proof (cases "path_exists (files w) (dir @ [''unwelded''])")
    case True
    with assms show "is_file (files w1) (dir @ [e]) \<Longrightarrow> is_file (files w) (dir @ [e])"
      by (simp add: ensure_unwelded_def)
  next
    case False
    with assms have "fs_step (os_mkdir (dir @ [''unwelded''])) w = Normal w1"
      by (simp add: ensure_unwelded_def)
    from fs_step_Normal [OF this] have "os_mkdir (dir @ [''unwelded'']) (files w) = Inr (files w1)"
      by simp
    from os_mkdir_kind(2) [OF this, of "dir @ [e]"]
    show "is_file (files w1) (dir @ [e]) \<Longrightarrow> is_file (files w) (dir @ [e])"
      by (auto simp: is_file_kind split: if_splits)
  qed
qed

lemma archive_frame:
  assumes "files w' = files w \<or> (\<exists>c. pack_save (dir @ [archive]) c (files w) = Inr (files w'))"
    and "archive \<noteq> ''unwelded''"
  shows "kind_at (files w') (dir @ ''unwelded'' # q) = kind_at (files w) (dir @ ''unwelded'' # q)"
    and "e \<noteq> archive \<Longrightarrow> kind_at (files w') (dir @ [e]) = kind_at (files w) (dir @ [e])"
proof -
  from assms(1) have k: "\<And>q. \<not> prefix (dir @ [archive]) q \<Longrightarrow> kind_at (files w') q = kind_at (files w) q"
  proof
    assume "files w' = files w"
    then show "\<And>q. \<not> prefix (dir @ [archive]) q \<Longrightarrow> kind_at (files w') q = kind_at (files w) q"
      by simp
  next
    assume "\<exists>c. pack_save (dir @ [archive]) c (files w) = Inr (files w')"
    then obtain c where "pack_save (dir @ [archive]) c (files w) = Inr (files w')" ..
    from pack_save_kind [OF this]
    show "\<And>q. \<not> prefix (dir @ [archive]) q \<Longrightarrow> kind_at (files w') q = kind_at (files w) q"
      by simp
  qed
  from k [of "dir @ ''unwelded'' # q"] assms(2)
  show "kind_at (files w') (dir @ ''unwelded'' # q) = kind_at (files w) (dir @ ''unwelded'' # q)"
    by simp
  from k [of "dir @ [e]"]
  show "e \<noteq> archive \<Longrightarrow> kind_at (files w') (dir @ [e]) = kind_at (files w) (dir @ [e])"
    by simp
qed

lemma nitro_weld_dir_steps:
  assumes "nitro_weld_dir rw dir ig mode w = Normal w'"
  obtains w1 es w2 staged w3 remaining where
    "ensure_unwelded (dir @ [''unwelded'']) w = Normal w1"
    "os_listdir dir (files w1) = Inr es"
    "stage_loop ''Welded Packs'' dir ig es w1 = Normal w2"
    "os_listdir (dir @ [''unwelded'']) (files w2) = Inr staged"
    "restore_loop dir ig staged w2 = Normal w3"
    "os_listdir (dir @ [''unwelded'']) (files w3) = Inr remaining"
    "files w' = files w3 \<or> (\<exists>c. pack_save (dir @ [''Welded Packs.zip'']) c (files w3) = Inr (files w'))"
  using assms unfolding nitro_weld_dir_def Let_def
  by (auto split: outcome.splits sum.splits if_splits dest!: fs_step_Normal) blast+

lemma mcvm_weld_dir_steps:
  assumes "mcvm_weld_dir rw dir ig w = Normal w'"
  obtains w1 es w2 staged where
    "ensure_unwelded (dir @ [''unwelded'']) w = Normal w1"
    "os_listdir dir (files w1) = Inr es"
    "stage_loop ''weld_pack'' dir ig es w1 = Normal w2"
    "os_listdir (dir @ [''unwelded'']) (files w2) = Inr staged"
    "files w' = files w2 \<or> (\<exists>c. pack_save (dir @ [''weld_pack.zip'']) c (files w2) = Inr (files w'))"
  using assms unfolding mcvm_weld_dir_def Let_def
  by (auto split: outcome.splits sum.splits if_splits dest!: fs_step_Normal) blast+


lemma markers:
  "sublist ''Welded Packs'' ''Welded Packs.zip''" "sublist ''weld_pack'' ''weld_pack.zip''"
  "\<not> sublist ''Welded Packs'' ''unwelded''" "\<not> sublist ''weld_pack'' ''unwelded''"
  by (simp_all add: sublist_code)


lemma nitro_after:
  assumes "nitro_weld_dir rw dir ig mode w = Normal w'"
  shows "kind_at (files w') (dir @ [''unwelded'']) = Some IsDir"
    and "\<not> sublist ''Welded Packs'' e \<Longrightarrow> is_file (files w') (dir @ [e]) \<Longrightarrow> restored ig e"
    and "restored ig e \<Longrightarrow> kind_at (files w') (dir @ ''unwelded'' # e # r) = None"
proof -
  from assms obtain w1 es w2 staged w3 remaining where
    en: "ensure_unwelded (dir @ [''unwelded'']) w = Normal w1"
    and ls: "os_listdir dir (files w1) = Inr es"
    and st: "stage_loop ''Welded Packs'' dir ig es w1 = Normal w2"
    and lu: "os_listdir (dir @ [''unwelded'']) (files w2) = Inr staged"
    and re: "restore_loop dir ig staged w2 = Normal w3"
    and lr: "os_listdir (dir @ [''unwelded'']) (files w3) = Inr remaining"
    and sv: "files w' = files w3 \<or> (\<exists>c. pack_save (dir @ [''Welded Packs.zip'']) c (files w3) = Inr (files w'))"
    by (rule nitro_weld_dir_steps)
  have a: "''Welded Packs.zip'' \<noteq> ''unwelded''" by simp
  from archive_frame(1) [OF sv a, of "[]"] os_listdir_kind(1) [OF lr]
  show "kind_at (files w') (dir @ [''unwelded'']) = Some IsDir" by simp
  show "restored ig e" if m: "\<not> sublist ''Welded Packs'' e" and f: "is_file (files w') (dir @ [e])"
  proof (rule ccontr)
    assume nr: "\<not> restored ig e"
    from m markers(1) have "e \<noteq> ''Welded Packs.zip''" by auto
    from archive_frame(2) [OF sv a this] f have "is_file (files w3) (dir @ [e])"
      by (simp add: is_file_kind)
    from restore_loop_files [OF re this] nr have "is_file (files w2) (dir @ [e])" by simp
    from stage_loop_post [OF st m this] have f1: "is_file (files w1) (dir @ [e])" and n: "e \<notin> set es"
      by simp_all
    from f1 have "kind_at (files w1) (dir @ [e]) \<noteq> None" by (auto simp: is_file_kind)
    with os_listdir_kind(2) [OF ls] n show False by simp
  qed
  show "kind_at (files w') (dir @ ''unwelded'' # e # r) = None" if h: "restored ig e"
  proof -
    have "kind_at (files w2) (dir @ [''unwelded'', e']) = None"
      if "restored ig e'" "e' \<notin> set staged" for e'
      using os_listdir_kind(2) [OF lu] that by auto
    from restore_loop_clears [OF re this h, of r]
    have "kind_at (files w3) (dir @ ''unwelded'' # e # r) = None" by simp
    with archive_frame(1) [OF sv a, of "e # r"] show ?thesis by simp
  qed
qed

section \<open>What the stager does with each file\<close>

text \<open>
  The general behaviour behind the concrete runs above.  The first pass moves every
  regular file whose name lacks the marker, whether its name contains a pattern or not;
  the second pass of variant 2 moves every staged entry that contains a pattern back.
\<close>

lemma stage_entry_lands:
  assumes "stage_entry m dir ig e w = Normal w'"
    and "\<not> sublist m e" "is_file (files w) (dir @ [e])"
  shows "kind_at (files w') (dir @ [''unwelded'', e]) = kind_at (files w) (dir @ [e])"
proof -
  from assms have mv: "move_over (dir @ [e]) (dir @ [''unwelded'', e]) w = Normal w'"
    by (auto simp: stage_entry_def split: if_splits sum.splits)
  from move_over_Normal(4) [OF mv, of "dir @ [''unwelded'', e]"] show ?thesis by simp
qed

lemma stage_loop_keeps:
  "stage_loop m dir ig es w = Normal w' \<Longrightarrow> \<not> (\<not> sublist m e \<and> is_file (files w) (dir @ [e])) \<Longrightarrow>
   kind_at (files w') (dir @ [e]) = kind_at (files w) (dir @ [e])"
proof (induction es arbitrary: w)
  case Nil
  then show ?case by simp
next
  case (Cons e0 es)
  from Cons.prems(1) obtain w1 where s: "stage_entry m dir ig e0 w = Normal w1"
    and l: "stage_loop m dir ig es w1 = Normal w'"
    by (auto split: outcome.splits)
  have k: "kind_at (files w1) (dir @ [e]) = kind_at (files w) (dir @ [e])"
  proof (cases "\<not> sublist m e0 \<and> is_file (files w) (dir @ [e0])")
    case True
    with Cons.prems(2) have "e \<noteq> e0" by auto
    with stage_entry_move(2) [OF s, of e] True show ?thesis by simp
  next
    case False
    from stage_entry_skip [OF s False] show ?thesis by simp
  qed
  with Cons.prems(2) have "\<not> (\<not> sublist m e \<and> is_file (files w1) (dir @ [e]))"
    by (simp add: is_file_kind)
  from Cons.IH [OF l this] k show ?case by simp
qed

lemma stage_loop_moves:
  "stage_loop m dir ig es w = Normal w' \<Longrightarrow> e \<in> set es \<Longrightarrow> \<not> sublist m e \<Longrightarrow>
   kind_at (files w) (dir @ [e]) = Some (IsFile c) \<Longrightarrow>
   kind_at (files w') (dir @ [''unwelded'', e]) = Some (IsFile c) \<and> kind_at (files w') (dir @ [e]) = None"
proof (induction es arbitrary: w)
  case Nil
  then show ?case by simp
next
  case (Cons e0 es)
  from Cons.prems(1) obtain w1 where s: "stage_entry m dir ig e0 w = Normal w1"
    and l: "stage_loop m dir ig es w1 = Normal w'"
    by (auto split: outcome.splits)
  from Cons.prems(4) have f: "is_file (files w) (dir @ [e])" by (simp add: is_file_kind)
  show ?case
  proof (cases "e0 = e")
    case True
    from stage_entry_move(2) [OF s, of e] stage_entry_lands [OF s] True Cons.prems(3,4) f
    have k1: "kind_at (files w1) (dir @ [e]) = None"
      and u1: "kind_at (files w1) (dir @ [''unwelded'', e]) = Some (IsFile c)" by simp_all
    from k1 have n: "\<not> (\<not> sublist m e \<and> is_file (files w1) (dir @ [e]))" by (simp add: is_file_kind)
    from stage_loop_keeps [OF l n] stage_loop_frame [OF l n, of "[]"] k1 u1 show ?thesis by simp
  next
    case False
    with Cons.prems(2) have mem: "e \<in> set es" by simp
    have "kind_at (files w1) (dir @ [e]) = kind_at (files w) (dir @ [e])"
    proof (cases "\<not> sublist m e0 \<and> is_file (files w) (dir @ [e0])")
      case True
      with stage_entry_move(2) [OF s, of e] False show ?thesis by simp
    next
      case n: False
      from stage_entry_skip [OF s n] show ?thesis by simp
    qed
    with Cons.IH [OF l mem Cons.prems(3)] Cons.prems(4) show ?thesis by simp
  qed
qed

lemma restore_entry_lands:
  "restore_entry dir e pats w = Normal w' \<Longrightarrow> hit pats e \<Longrightarrow> kind_at (files w') (dir @ [e]) \<noteq> None"
proof (induction pats arbitrary: w)
  case Nil
  then show ?case by (simp add: hit_def)
next
  case (Cons p pats)
  from Cons.prems(1) obtain b where b: "py_in_str p e = Inr b"
    by (auto split: sum.splits)
  show ?case
  proof (cases b)
    case False
    with b Cons.prems have "restore_entry dir e pats w = Normal w'" "hit pats e"
      by (auto simp: hit_def)
    from Cons.IH [OF this] show ?thesis .
  next
    case True
    with b Cons.prems(1) obtain w1 where mv: "move_over (dir @ [''unwelded'', e]) (dir @ [e]) w = Normal w1"
      and rest: "restore_entry dir e pats w1 = Normal w'"
      by (auto split: outcome.splits)
    note m = move_over_Normal [OF mv]
    from m(2) have u: "e \<noteq> ''unwelded''" by simp
    from m(4) [of "dir @ [''unwelded'', e]"] u
    have "kind_at (files w1) (dir @ [''unwelded'', e]) = None" by simp
    from restore_entry_absent [OF rest this] have same: "w' = w1" by simp
    from m(4) [of "dir @ [e]"] m(3) same show ?thesis by simp
  qed
qed

lemma restore_loop_keeps:
  "restore_loop dir ig es w = Normal w' \<Longrightarrow> \<not> restored ig e \<Longrightarrow>
   kind_at (files w') (dir @ [e]) = kind_at (files w) (dir @ [e])"
proof (induction es arbitrary: w)
  case Nil
  then show ?case by simp
next
  case (Cons e0 es)
  from Cons.prems(1) obtain pats w1 where it: "py_iter ig = Inr pats"
    and s: "restore_entry dir e0 pats w = Normal w1" and l: "restore_loop dir ig es w1 = Normal w'"
    by (rule restore_loop_step)
  have "kind_at (files w1) (dir @ [e]) = kind_at (files w) (dir @ [e])"
  proof (cases "hit pats e0")
    case True
    with it Cons.prems(2) have "e \<noteq> e0" by (auto simp: restored_def)
    with restore_entry_hit [OF s True] show ?thesis by simp
  next
    case False
    from restore_entry_miss [OF s False] show ?thesis by simp
  qed
  with Cons.IH [OF l Cons.prems(2)] show ?case by simp
qed

lemma restore_loop_lands:
  "restore_loop dir ig es w = Normal w' \<Longrightarrow> restored ig e \<Longrightarrow>
   e \<in> set es \<or> kind_at (files w) (dir @ [e]) \<noteq> None \<Longrightarrow> kind_at (files w') (dir @ [e]) \<noteq> None"
proof (induction es arbitrary: w)
  case Nil
  then show ?case by simp
next
  case (Cons e0 es)
  from Cons.prems(1) obtain pats w1 where it: "py_iter ig = Inr pats"
    and s: "restore_entry dir e0 pats w = Normal w1" and l: "restore_loop dir ig es w1 = Normal w'"
    by (rule restore_loop_step)
  have "e \<in> set es \<or> kind_at (files w1) (dir @ [e]) \<noteq> None"
  proof (cases "e0 = e")
    case True
    with Cons.prems(2) it have "hit pats e0" by (simp add: restored_def)
    from restore_entry_lands [OF s this] True show ?thesis by simp
  next
    case False
    show ?thesis
    proof (cases "hit pats e0")
      case True
      from restore_entry_hit [OF s True] False Cons.prems(3) show ?thesis by auto
    next
      case h: False
      from restore_entry_miss [OF s h] False Cons.prems(3) show ?thesis by auto
    qed
  qed
  from Cons.IH [OF l Cons.prems(2) this] show ?case .
qed

lemma restored_ignore_list: "restored (ignore_list P) e = ignored P e"
  by (auto simp: restored_def hit_def ignore_list_def ignored_def)

lemma ensure_unwelded_keeps:
  assumes "ensure_unwelded (dir @ [''unwelded'']) w = Normal w1"
    and "kind_at (files w) (dir @ [e]) = Some (IsFile c)"
  shows "kind_at (files w1) (dir @ [e]) = Some (IsFile c)"
proof (cases "path_exists (files w) (dir @ [''unwelded''])")
  case True
  with assms show ?thesis by (simp add: ensure_unwelded_def)
next
  case False
  with assms have "fs_step (os_mkdir (dir @ [''unwelded''])) w = Normal w1"
    by (simp add: ensure_unwelded_def)
  from fs_step_Normal [OF this] have mk: "os_mkdir (dir @ [''unwelded'']) (files w) = Inr (files w1)"
    by simp
  from os_mkdir_kind(1) [OF mk] assms(2) have "e \<noteq> ''unwelded''" by auto
  with os_mkdir_kind(2) [OF mk, of "dir @ [e]"] assms(2) show ?thesis by simp
qed


text \<open>
  Variant 2, for a pattern list \<open>P\<close> and a regular file \<open>f\<close> of the directory, once the
  stager has completed: if the name contains a pattern, nothing is staged under that name
  and the directory has an entry of that name; if it contains neither a pattern nor the
  marker, the file is staged with its contents and gone from the directory.
\<close>

lemma archive_written:
  assumes "files w' = files w \<or> (\<exists>c. pack_save (dir @ [archive]) c (files w) = Inr (files w'))"
    and "kind_at (files w) (dir @ [e]) \<noteq> None"
  shows "kind_at (files w') (dir @ [e]) \<noteq> None"
  using assms(1)
proof
  assume "files w' = files w"
  with assms(2) show ?thesis by simp
next
  assume "\<exists>c. pack_save (dir @ [archive]) c (files w) = Inr (files w')"
  then obtain c where "pack_save (dir @ [archive]) c (files w) = Inr (files w')" ..
  from pack_save_kind [OF this, of "dir @ [e]"] assms(2) show ?thesis by auto
qed

lemma nitro_weld_dir_policy:
  assumes "nitro_weld_dir rw dir (ignore_list P) mode w = Normal w'"
    and "kind_at (files w) (dir @ [f]) = Some (IsFile c)"
  shows "ignored P f \<Longrightarrow>
           kind_at (files w') (dir @ [''unwelded'', f]) = None \<and> path_exists (files w') (dir @ [f])"
    and "\<not> ignored P f \<Longrightarrow> \<not> sublist ''Welded Packs'' f \<Longrightarrow>
           kind_at (files w') (dir @ [''unwelded'', f]) = Some (IsFile c)
           \<and> \<not> path_exists (files w') (dir @ [f])"
proof -
  let ?ig = "ignore_list P"
  from assms(1) obtain w1 es w2 staged w3 remaining where
    en: "ensure_unwelded (dir @ [''unwelded'']) w = Normal w1"
    and ls: "os_listdir dir (files w1) = Inr es"
    and st: "stage_loop ''Welded Packs'' dir ?ig es w1 = Normal w2"
    and lu: "os_listdir (dir @ [''unwelded'']) (files w2) = Inr staged"
    and re: "restore_loop dir ?ig staged w2 = Normal w3"
    and lr: "os_listdir (dir @ [''unwelded'']) (files w3) = Inr remaining"
    and sv: "files w' = files w3 \<or> (\<exists>c. pack_save (dir @ [''Welded Packs.zip'']) c (files w3) = Inr (files w'))"
    by (rule nitro_weld_dir_steps)
  have a: "''Welded Packs.zip'' \<noteq> ''unwelded''" by simp
  from ensure_unwelded_keeps [OF en assms(2)] have k1: "kind_at (files w1) (dir @ [f]) = Some (IsFile c)" .
  with os_listdir_kind(2) [OF ls] have mem: "f \<in> set es" by simp
  show "kind_at (files w') (dir @ [''unwelded'', f]) = None \<and> path_exists (files w') (dir @ [f])"
    if ig: "ignored P f"
  proof -
    from ig have r: "restored ?ig f" by (simp add: restored_ignore_list)
    have "f \<in> set staged \<or> kind_at (files w2) (dir @ [f]) \<noteq> None"
    proof (cases "sublist ''Welded Packs'' f")
      case True
      then have "\<not> (\<not> sublist ''Welded Packs'' f \<and> is_file (files w1) (dir @ [f]))" by simp
      from stage_loop_keeps [OF st this] k1 show ?thesis by simp
    next
      case False
      from stage_loop_moves [OF st mem False k1] os_listdir_kind(2) [OF lu] show ?thesis by simp
    qed
    from restore_loop_lands [OF re r this] have "kind_at (files w3) (dir @ [f]) \<noteq> None" .
    from archive_written [OF sv this] nitro_after(3) [OF assms(1) r, of "[]"]
    show ?thesis by (simp add: path_exists_kind)
  qed
  show "kind_at (files w') (dir @ [''unwelded'', f]) = Some (IsFile c) \<and> \<not> path_exists (files w') (dir @ [f])"
    if ni: "\<not> ignored P f" and nm: "\<not> sublist ''Welded Packs'' f"
  proof -
    from ni have r: "\<not> restored ?ig f" by (simp add: restored_ignore_list)
    from nm markers(1) have ne: "f \<noteq> ''Welded Packs.zip''" by auto
    from stage_loop_moves [OF st mem nm k1]
      restore_loop_frame [OF re r, of "[]"] restore_loop_keeps [OF re r]
      archive_frame(1) [OF sv a, of "[f]"] archive_frame(2) [OF sv a ne]
    show ?thesis by (simp add: path_exists_kind)
  qed
qed

text \<open>
  Variant 1, once the stager has completed: every regular file whose name lacks the
  marker is staged with its contents and gone from the directory, for any ignore value.
\<close>

lemma mcvm_weld_dir_policy:
  assumes "mcvm_weld_dir rw dir ig w = Normal w'"
    and "kind_at (files w) (dir @ [f]) = Some (IsFile c)"
    and nm: "\<not> sublist ''weld_pack'' f"
  shows "kind_at (files w') (dir @ [''unwelded'', f]) = Some (IsFile c) \<and> \<not> path_exists (files w') (dir @ [f])"
proof -
  from assms(1) obtain w1 es w2 staged where
    en: "ensure_unwelded (dir @ [''unwelded'']) w = Normal w1"
    and ls: "os_listdir dir (files w1) = Inr es"
    and st: "stage_loop ''weld_pack'' dir ig es w1 = Normal w2"
    and lu: "os_listdir (dir @ [''unwelded'']) (files w2) = Inr staged"
    and sv: "files w' = files w2 \<or> (\<exists>c. pack_save (dir @ [''weld_pack.zip'']) c (files w2) = Inr (files w'))"
    by (rule mcvm_weld_dir_steps)
  have a: "''weld_pack.zip'' \<noteq> ''unwelded''" by simp
  from ensure_unwelded_keeps [OF en assms(2)] have k1: "kind_at (files w1) (dir @ [f]) = Some (IsFile c)" .
  with os_listdir_kind(2) [OF ls] have mem: "f \<in> set es" by simp
  from nm markers(2) have ne: "f \<noteq> ''weld_pack.zip''" by auto
  from stage_loop_moves [OF st mem nm k1]
    archive_frame(1) [OF sv a, of "[f]"] archive_frame(2) [OF sv a ne]
  show ?thesis by (simp add: path_exists_kind)
qed


section \<open>The dispatcher in general\<close>

text \<open>
  Variant 2 on the client side without a datapack folder: the datapack directories are
  \<^verbatim>\<open>saves/e/datapacks\<close> for the subdirectories \<open>e\<close> of \<^verbatim>\<open>saves\<close> whose \<^verbatim>\<open>datapacks\<close> exists.
\<close>

lemma joinpath_literals:
  "joinpath p ''saves'' = p @ [''saves'']"
  "joinpath p ''resourcepacks'' = p @ [''resourcepacks'']"
  "joinpath p ''world/datapacks'' = p @ [''world'', ''datapacks'']"
  "path_parts ''datapacks'' = [''datapacks'']"
  by (simp_all add: joinpath_def path_parts_def)

lemma nitro_saves_loop_eq:
  "nitro_saves_loop saves t es acc =
     acc @ map (\<lambda>e. saves @ [e, ''datapacks''])
             (filter (\<lambda>e. path_exists t (saves @ [e, ''datapacks''])) es)"
  by (induction es arbitrary: acc) (simp_all add: joinpath_literals)

lemma walk_dirnames_kind:
  assumes "walk_dirnames d t = Inr subdirs"
  shows "set subdirs = {e. is_dir t (d @ [e])}" and "distinct subdirs"
proof -
  from assms obtain kids where k: "lookup t d = Some (Dir kids)"
    and s: "subdirs = filter (\<lambda>e. is_dir t (d @ [e])) (remdups (map fst kids))"
    by (auto simp: walk_dirnames_def split: option.splits node.splits)
  from s show "distinct subdirs" by simp
  have "e \<in> fst ` set kids" if "is_dir t (d @ [e])" for e
  proof -
    from that have "kind_at t (d @ [e]) \<noteq> None" by (simp add: is_dir_kind)
    with k map_of_eq_None_iff [of kids e] show ?thesis
      by (cases "map_of kids e") (simp_all add: kind_at_append kind_at_Cons)
  qed
  with s show "set subdirs = {e. is_dir t (d @ [e])}" by auto
qed

lemma nitro_datapack_dirs_client:
  assumes "py_getitem arg ''config'' = Inr cfg"
    and "py_contains ''datapack_folder'' cfg = Inr False
         \<or> py_contains ''datapack_folder'' cfg = Inr True \<and> py_getitem cfg ''datapack_folder'' = Inr JNull"
    and "py_getitem arg ''side'' = Inr (JStr ''client'')"
    and "walk_dirnames (game_dir @ [''saves'']) t = Inr subdirs"
  shows "nitro_datapack_dirs arg game_dir t =
           Inr (map (\<lambda>e. game_dir @ [''saves'', e, ''datapacks''])
                  (filter (\<lambda>e. path_exists t (game_dir @ [''saves'', e, ''datapacks''])) subdirs))"
  using assms by (auto simp: nitro_datapack_dirs_def joinpath_literals nitro_saves_loop_eq)

text \<open>
  Variant 2 with \<^verbatim>\<open>disable_weld\<close> true: the run completes and only prints, the result
  once for a hook of the variant, and the diagnostic line and the result twice otherwise.
  Variant 1 returns at once for any hook but \<^verbatim>\<open>on_instance_setup\<close>.
\<close>

lemma weld_disabled_object: "weld_disabled arg = Inr b \<Longrightarrow> \<exists>kvs. arg = JObj kvs"
  by (cases arg) (simp_all add: weld_disabled_def)

lemma nitro_deferred_object: "\<exists>b. nitro_deferred hook (JObj kvs) = Inr b"
  by (force simp: nitro_deferred_def map_of_eq_None_iff split: option.splits)

lemma nitro_run_disabled:
  assumes "argv_get argv 1 = Inr hook" "argv_get argv 2 = Inr raw" "loads raw = Inr arg"
    and "weld_disabled arg = Inr True"
  shows "nitro_run loads rw argv w =
           Normal (set_result hook
                     (if recognized hook then w else set_result hook (print ''$_Incorrect hook'' w)))"
proof -
  from weld_disabled_object [OF assms(4)] obtain kvs where "arg = JObj kvs" ..
  with nitro_deferred_object [of hook kvs] obtain b where "nitro_deferred hook arg = Inr b" by auto
  with assms show ?thesis by (simp add: nitro_run_def)
qed

lemma set_result_frame: "files (set_result hook w) = files w" "welds (set_result hook w) = welds w"
  by (simp_all add: set_result_def nitro_output_def print_def)

lemma mcvm_run_other_hook:
  "argv_get argv 1 = Inr hook \<Longrightarrow> hook \<noteq> ''on_instance_setup'' \<Longrightarrow> mcvm_run loads rw argv w = Normal w"
  by (simp add: mcvm_run_def)

text \<open>
  Variant 2 hands the engine the entries of the staging directory, each joined to the
  staging directory, with the target directory as output and working directory.
\<close>

lemma nitro_weld_dir_call:
  assumes "nitro_weld_dir rw dir ig mode w = Normal w'"
  shows "\<exists>remaining. welds w' = welds w @ [\<lparr>packs = map (\<lambda>x. dir @ [''unwelded'', x]) remaining,
                                           config_output = dir, directory = dir\<rparr>]
           \<and> distinct remaining
           \<and> set remaining = {x. path_exists (files w') (dir @ [''unwelded'', x])}"
proof -
  from assms obtain w1 es w2 staged w3 remaining where
    en: "ensure_unwelded (dir @ [''unwelded'']) w = Normal w1"
    and ls: "os_listdir dir (files w1) = Inr es"
    and st: "stage_loop ''Welded Packs'' dir ig es w1 = Normal w2"
    and lu: "os_listdir (dir @ [''unwelded'']) (files w2) = Inr staged"
    and re: "restore_loop dir ig staged w2 = Normal w3"
    and lr: "os_listdir (dir @ [''unwelded'']) (files w3) = Inr remaining"
    and sv: "files w' = files w3 \<or> (\<exists>c. pack_save (dir @ [''Welded Packs.zip'']) c (files w3) = Inr (files w'))"
    by (rule nitro_weld_dir_steps)
  have a: "''Welded Packs.zip'' \<noteq> ''unwelded''" by simp
  from ensure_unwelded_out(2) [of "dir @ [''unwelded'']" w] en have "welds w1 = welds w" by simp
  moreover from stage_loop_out [of "''Welded Packs''" dir ig es w1] st have "welds w2 = welds w1" by simp
  moreover from restore_loop_out [of dir ig staged w2] re have "welds w3 = welds w2" by simp
  ultimately have w3: "welds w3 = welds w" by simp
  from assms en ls st lu re lr w3
  have "welds w' = welds w @ [\<lparr>packs = map (\<lambda>x. dir @ [''unwelded'', x]) remaining,
                                           config_output = dir, directory = dir\<rparr>]"
    unfolding nitro_weld_dir_def Let_def
    by (auto split: sum.splits if_splits simp: fs_step_def)
  moreover from lr have "distinct remaining"
    by (auto simp: os_listdir_def split: option.splits node.splits)
  moreover from os_listdir_kind(2) [OF lr] archive_frame(1) [OF sv a, of "[_]"]
  have "set remaining = {x. path_exists (files w') (dir @ [''unwelded'', x])}"
    by (simp add: path_exists_kind)
  ultimately show ?thesis by blast
qed

section \<open>Staging a second time\<close>
































end
